theory Spec2Isabelle
  imports Main "HOL-Library.Word" "HOL-Library.Char_ord" "HOL-Library.List_Lexorder"
begin

text \<open>
  The cocobase Go client: its query builder, its client with token, requests and errors,
  and its realtime connections, as functions on explicit states, followed by the
  properties proved of them.
\<close>

section \<open>Go values and their formatting\<close>

text \<open>
  Go's \<open>int\<close> is a 64-bit two's complement integer on the platforms the client is
  built for: arithmetic wraps around, comparisons and \<open>%d\<close> read the signed value.
\<close>

type_synonym go_int = "64 word"

definition digit_char :: "nat \<Rightarrow> char" where
  "digit_char n = ''0123456789'' ! n"

function decimal :: "nat \<Rightarrow> string" where
  "decimal n = (if n < 10 then [digit_char n] else decimal (n div 10) @ [digit_char (n mod 10)])"
  by pat_completeness auto
termination
  by (relation "measure id") auto

declare decimal.simps [simp del]

text \<open>\<open>fmt.Sprintf("%d", i)\<close>: the decimal digits, with a minus sign below zero.\<close>

definition format_d :: "go_int \<Rightarrow> string" where
  "format_d i = (if sint i < 0 then CHR ''-'' # decimal (nat (- sint i)) else decimal (nat (sint i)))"

text \<open>
  The \<open>interface{}\<close> arguments of the query builder, as the tests and examples pass
  them: strings, integers and booleans. \<open>Sprint_v\<close> is \<open>fmt.Sprintf("%v", value)\<close>.
\<close>

datatype go_value = GoString string | GoInt go_int | GoBool bool

fun Sprint_v :: "go_value \<Rightarrow> string" where
  "Sprint_v (GoString s) = s"
| "Sprint_v (GoInt i) = format_d i"
| "Sprint_v (GoBool b) = (if b then ''true'' else ''false'')"

text \<open>\<open>strings.Join(elems, sep)\<close>.\<close>

fun Join :: "string list \<Rightarrow> string \<Rightarrow> string" where
  "Join [] sep = []"
| "Join [x] sep = x"
| "Join (x # y # ys) sep = x @ sep @ Join (y # ys) sep"

text \<open>
  \<open>strings.SplitN(s, "=", 2)\<close>: the text before the first \<open>=\<close> and the text after
  it, or the whole string alone when it holds no \<open>=\<close>.
\<close>

definition SplitN_eq2 :: "string \<Rightarrow> string list" where
  "SplitN_eq2 s =
     (if CHR ''='' \<in> set s
      then [takeWhile (\<lambda>c. c \<noteq> CHR ''='') s, tl (dropWhile (\<lambda>c. c \<noteq> CHR ''='') s)]
      else [s])"

section \<open>net/url: query escaping and \<open>url.Values\<close>\<close>

text \<open>
  \<open>url.QueryEscape\<close> of the Go standard library: letters, digits and \<open>- _ . ~\<close>
  stay, a space becomes \<open>+\<close>, every other byte becomes \<open>%XX\<close> in upper-case
  hexadecimal.
\<close>

definition unreserved :: "char \<Rightarrow> bool" where
  "unreserved c \<longleftrightarrow>
     c \<in> set ''abcdefghijklmnopqrstuvwxyzABCDEFGHIJKLMNOPQRSTUVWXYZ0123456789-_.~''"

definition upperhex :: "nat \<Rightarrow> char" where
  "upperhex n = ''0123456789ABCDEF'' ! n"

definition escape_byte :: "char \<Rightarrow> string" where
  "escape_byte c =
     (if unreserved c then [c]
      else if c = CHR '' '' then ''+''
      else [CHR ''%'', upperhex (of_char c div 16), upperhex (of_char c mod 16)])"

definition QueryEscape :: "string \<Rightarrow> string" where
  "QueryEscape s = concat (map escape_byte s)"

text \<open>
  \<open>url.Values\<close> is a \<open>map[string][]string\<close>. It is kept as an association list
  with one entry per key; \<open>Encode\<close> sorts the keys, so the order of the entries
  never reaches the output.
\<close>

type_synonym Values = "(string \<times> string list) list"

fun Add :: "Values \<Rightarrow> string \<Rightarrow> string \<Rightarrow> Values" where
  "Add [] key value = [(key, [value])]"
| "Add ((k, vs) # rest) key value =
     (if k = key then (k, vs @ [value]) # rest else (k, vs) # Add rest key value)"

definition values_at :: "Values \<Rightarrow> string \<Rightarrow> string list" where
  "values_at v key = (case map_of v key of None \<Rightarrow> [] | Some vs \<Rightarrow> vs)"

definition write_pair :: "string \<Rightarrow> string \<Rightarrow> string \<Rightarrow> string" where
  "write_pair keyEscaped x buf =
     (if buf \<noteq> [] then buf @ ''&'' else buf) @ keyEscaped @ ''='' @ QueryEscape x"

definition write_key :: "Values \<Rightarrow> string \<Rightarrow> string \<Rightarrow> string" where
  "write_key v k buf = fold (write_pair (QueryEscape k)) (values_at v k) buf"

definition Encode :: "Values \<Rightarrow> string" where
  "Encode v = fold (write_key v) (sort (map fst v)) []"

section \<open>The query builder (cocobase/query.go)\<close>

record QueryBuilder =
  filters :: "string \<rightharpoonup> string"
  orFilters :: "string \<rightharpoonup> string list"
  limit :: go_int
  offset :: go_int
  sort_field :: string
  order_field :: string

definition NewQuery :: QueryBuilder where
  "NewQuery = \<lparr>filters = Map.empty, orFilters = Map.empty, limit = 0, offset = 0,
     sort_field = [], order_field = []\<rparr>"

definition Where :: "string \<Rightarrow> go_value \<Rightarrow> QueryBuilder \<Rightarrow> QueryBuilder" where
  "Where field value qb = qb\<lparr>filters := (filters qb)(field \<mapsto> Sprint_v value)\<rparr>"

definition Equals :: "string \<Rightarrow> go_value \<Rightarrow> QueryBuilder \<Rightarrow> QueryBuilder" where
  "Equals field value qb = Where field value qb"

definition NotEquals :: "string \<Rightarrow> go_value \<Rightarrow> QueryBuilder \<Rightarrow> QueryBuilder" where
  "NotEquals field value qb =
     (let key = field @ ''_ne'' in qb\<lparr>filters := (filters qb)(key \<mapsto> Sprint_v value)\<rparr>)"

definition GreaterThan :: "string \<Rightarrow> go_value \<Rightarrow> QueryBuilder \<Rightarrow> QueryBuilder" where
  "GreaterThan field value qb =
     (let key = field @ ''_gt'' in qb\<lparr>filters := (filters qb)(key \<mapsto> Sprint_v value)\<rparr>)"

definition GreaterThanOrEqual :: "string \<Rightarrow> go_value \<Rightarrow> QueryBuilder \<Rightarrow> QueryBuilder" where
  "GreaterThanOrEqual field value qb =
     (let key = field @ ''_gte'' in qb\<lparr>filters := (filters qb)(key \<mapsto> Sprint_v value)\<rparr>)"

definition LessThan :: "string \<Rightarrow> go_value \<Rightarrow> QueryBuilder \<Rightarrow> QueryBuilder" where
  "LessThan field value qb =
     (let key = field @ ''_lt'' in qb\<lparr>filters := (filters qb)(key \<mapsto> Sprint_v value)\<rparr>)"

definition LessThanOrEqual :: "string \<Rightarrow> go_value \<Rightarrow> QueryBuilder \<Rightarrow> QueryBuilder" where
  "LessThanOrEqual field value qb =
     (let key = field @ ''_lte'' in qb\<lparr>filters := (filters qb)(key \<mapsto> Sprint_v value)\<rparr>)"

definition Between :: "string \<Rightarrow> go_value \<Rightarrow> go_value \<Rightarrow> QueryBuilder \<Rightarrow> QueryBuilder" where
  "Between field lo hi qb = LessThanOrEqual field hi (GreaterThanOrEqual field lo qb)"

definition Contains :: "string \<Rightarrow> string \<Rightarrow> QueryBuilder \<Rightarrow> QueryBuilder" where
  "Contains field substring qb =
     (let key = field @ ''_contains'' in qb\<lparr>filters := (filters qb)(key \<mapsto> substring)\<rparr>)"

definition StartsWith :: "string \<Rightarrow> string \<Rightarrow> QueryBuilder \<Rightarrow> QueryBuilder" where
  "StartsWith field prefix qb =
     (let key = field @ ''_startswith'' in qb\<lparr>filters := (filters qb)(key \<mapsto> prefix)\<rparr>)"

definition EndsWith :: "string \<Rightarrow> string \<Rightarrow> QueryBuilder \<Rightarrow> QueryBuilder" where
  "EndsWith field suffix qb =
     (let key = field @ ''_endswith'' in qb\<lparr>filters := (filters qb)(key \<mapsto> suffix)\<rparr>)"

definition Search :: "string \<Rightarrow> string list \<Rightarrow> QueryBuilder \<Rightarrow> QueryBuilder" where
  "Search searchTerm field_names qb =
     (let key = Join field_names ''__or__'' @ ''_contains''
      in qb\<lparr>filters := (filters qb)(key \<mapsto> searchTerm)\<rparr>)"

definition In :: "string \<Rightarrow> go_value list \<Rightarrow> QueryBuilder \<Rightarrow> QueryBuilder" where
  "In field vals qb =
     (let key = field @ ''_in''; strValues = map Sprint_v vals
      in qb\<lparr>filters := (filters qb)(key \<mapsto> Join strValues '','')\<rparr>)"

definition NotIn :: "string \<Rightarrow> go_value list \<Rightarrow> QueryBuilder \<Rightarrow> QueryBuilder" where
  "NotIn field vals qb =
     (let key = field @ ''_notin''; strValues = map Sprint_v vals
      in qb\<lparr>filters := (filters qb)(key \<mapsto> Join strValues '','')\<rparr>)"

definition IsNull :: "string \<Rightarrow> QueryBuilder \<Rightarrow> QueryBuilder" where
  "IsNull field qb =
     (let key = field @ ''_isnull'' in qb\<lparr>filters := (filters qb)(key \<mapsto> ''true'')\<rparr>)"

definition IsNotNull :: "string \<Rightarrow> QueryBuilder \<Rightarrow> QueryBuilder" where
  "IsNotNull field qb =
     (let key = field @ ''_isnull'' in qb\<lparr>filters := (filters qb)(key \<mapsto> ''false'')\<rparr>)"

subsection \<open>OR conditions\<close>

text \<open>
  An \<open>OrBuilder\<close> holds a pointer to its query builder and writes through it; here it
  carries the builder, and \<open>Done\<close> hands the updated builder back.
\<close>

record OrBuilder =
  qb :: QueryBuilder
  groupName :: string

definition Or :: "QueryBuilder \<Rightarrow> OrBuilder" where
  "Or b = \<lparr>qb = b, groupName = []\<rparr>"

definition OrGroup :: "string \<Rightarrow> QueryBuilder \<Rightarrow> OrBuilder" where
  "OrGroup name b = \<lparr>qb = b, groupName = name\<rparr>"

definition addCondition :: "string \<Rightarrow> string \<Rightarrow> go_value \<Rightarrow> OrBuilder \<Rightarrow> OrBuilder" where
  "addCondition field operator value ob =
     (let key = (if operator \<noteq> [] then field @ ''_'' @ operator else field);
          prefix = (if groupName ob = [] then ''[or]'' else ''[or:'' @ groupName ob @ '']'');
          filterStr = prefix @ key @ ''='' @ Sprint_v value;
          old = (case orFilters (qb ob) (groupName ob) of None \<Rightarrow> [] | Some fs \<Rightarrow> fs)
      in ob\<lparr>qb := (qb ob)\<lparr>orFilters := (orFilters (qb ob))(groupName ob \<mapsto> old @ [filterStr])\<rparr>\<rparr>)"

definition Or_Where :: "string \<Rightarrow> go_value \<Rightarrow> OrBuilder \<Rightarrow> OrBuilder" where
  "Or_Where field value ob = addCondition field [] value ob"

definition Or_Equals :: "string \<Rightarrow> go_value \<Rightarrow> OrBuilder \<Rightarrow> OrBuilder" where
  "Or_Equals field value ob = Or_Where field value ob"

definition Or_NotEquals :: "string \<Rightarrow> go_value \<Rightarrow> OrBuilder \<Rightarrow> OrBuilder" where
  "Or_NotEquals field value ob = addCondition field ''ne'' value ob"

definition Or_GreaterThan :: "string \<Rightarrow> go_value \<Rightarrow> OrBuilder \<Rightarrow> OrBuilder" where
  "Or_GreaterThan field value ob = addCondition field ''gt'' value ob"

definition Or_GreaterThanOrEqual :: "string \<Rightarrow> go_value \<Rightarrow> OrBuilder \<Rightarrow> OrBuilder" where
  "Or_GreaterThanOrEqual field value ob = addCondition field ''gte'' value ob"

definition Or_LessThan :: "string \<Rightarrow> go_value \<Rightarrow> OrBuilder \<Rightarrow> OrBuilder" where
  "Or_LessThan field value ob = addCondition field ''lt'' value ob"

definition Or_LessThanOrEqual :: "string \<Rightarrow> go_value \<Rightarrow> OrBuilder \<Rightarrow> OrBuilder" where
  "Or_LessThanOrEqual field value ob = addCondition field ''lte'' value ob"

definition Or_Contains :: "string \<Rightarrow> string \<Rightarrow> OrBuilder \<Rightarrow> OrBuilder" where
  "Or_Contains field substring ob = addCondition field ''contains'' (GoString substring) ob"

definition Or_StartsWith :: "string \<Rightarrow> string \<Rightarrow> OrBuilder \<Rightarrow> OrBuilder" where
  "Or_StartsWith field prefix ob = addCondition field ''startswith'' (GoString prefix) ob"

definition Or_EndsWith :: "string \<Rightarrow> string \<Rightarrow> OrBuilder \<Rightarrow> OrBuilder" where
  "Or_EndsWith field suffix ob = addCondition field ''endswith'' (GoString suffix) ob"

definition Or_IsNull :: "string \<Rightarrow> OrBuilder \<Rightarrow> OrBuilder" where
  "Or_IsNull field ob = addCondition field ''isnull'' (GoBool True) ob"

definition Or_IsNotNull :: "string \<Rightarrow> OrBuilder \<Rightarrow> OrBuilder" where
  "Or_IsNotNull field ob = addCondition field ''isnull'' (GoBool False) ob"

definition Done :: "OrBuilder \<Rightarrow> QueryBuilder" where
  "Done ob = qb ob"

subsection \<open>Pagination and sorting\<close>

definition Limit :: "go_int \<Rightarrow> QueryBuilder \<Rightarrow> QueryBuilder" where
  "Limit n b = b\<lparr>limit := n\<rparr>"

definition Offset :: "go_int \<Rightarrow> QueryBuilder \<Rightarrow> QueryBuilder" where
  "Offset n b = b\<lparr>offset := n\<rparr>"

definition Page :: "go_int \<Rightarrow> go_int \<Rightarrow> QueryBuilder \<Rightarrow> QueryBuilder" where
  "Page page perPage b =
     (let page = (if page <s 1 then 1 else page)
      in b\<lparr>limit := perPage, offset := (page - 1) * perPage\<rparr>)"

definition OrderBy :: "string \<Rightarrow> QueryBuilder \<Rightarrow> QueryBuilder" where
  "OrderBy field b = b\<lparr>sort_field := field, order_field := ''asc''\<rparr>"

definition OrderByAsc :: "string \<Rightarrow> QueryBuilder \<Rightarrow> QueryBuilder" where
  "OrderByAsc field b = b\<lparr>sort_field := field, order_field := ''asc''\<rparr>"

definition OrderByDesc :: "string \<Rightarrow> QueryBuilder \<Rightarrow> QueryBuilder" where
  "OrderByDesc field b = b\<lparr>sort_field := field, order_field := ''desc''\<rparr>"

definition Asc :: "QueryBuilder \<Rightarrow> QueryBuilder" where
  "Asc b = b\<lparr>order_field := ''asc''\<rparr>"

definition Desc :: "QueryBuilder \<Rightarrow> QueryBuilder" where
  "Desc b = b\<lparr>order_field := ''desc''\<rparr>"

subsection \<open>Build\<close>

text \<open>
  \<open>Build\<close> runs on the receiver and a local \<open>params\<close>; both are threaded through
  its statements, and the call returns the query string with the receiver as it is
  left. Go ranges over a map in an order it chooses anew at every loop: the two
  orders, \<open>ks\<close> for \<open>filters\<close> and \<open>gs\<close> for \<open>orFilters\<close>, are arguments, and
  \<open>range_order\<close> says that such a list visits every key of the map once. The
  loop bodies look the key up again; a key outside the map, which Go never visits, adds
  nothing.
\<close>

definition range_order :: "('k \<rightharpoonup> 'v) \<Rightarrow> 'k list \<Rightarrow> bool" where
  "range_order m ks \<longleftrightarrow> distinct ks \<and> set ks = dom m"

record Build_frame =
  self :: QueryBuilder
  params :: Values

definition params_Add :: "string \<Rightarrow> string \<Rightarrow> Build_frame \<Rightarrow> Build_frame" where
  "params_Add key value fr = fr\<lparr>params := Add (params fr) key value\<rparr>"

definition filters_body :: "string \<Rightarrow> Build_frame \<Rightarrow> Build_frame" where
  "filters_body key fr =
     (case filters (self fr) key of None \<Rightarrow> fr | Some value \<Rightarrow> params_Add key value fr)"

definition or_filter_body :: "string \<Rightarrow> Build_frame \<Rightarrow> Build_frame" where
  "or_filter_body filterStr fr =
     (let parts = SplitN_eq2 filterStr
      in if length parts = 2 then params_Add (parts ! 0) (parts ! 1) fr else fr)"

definition or_group_body :: "string \<Rightarrow> Build_frame \<Rightarrow> Build_frame" where
  "or_group_body g fr =
     (case orFilters (self fr) g of None \<Rightarrow> fr | Some fs \<Rightarrow> fold or_filter_body fs fr)"

definition pagination :: "Build_frame \<Rightarrow> Build_frame" where
  "pagination fr =
     (let fr = (if 0 <s limit (self fr)
                then params_Add ''limit'' (format_d (limit (self fr))) fr else fr)
      in if 0 <s offset (self fr)
         then params_Add ''offset'' (format_d (offset (self fr))) fr else fr)"

definition sorting :: "Build_frame \<Rightarrow> Build_frame" where
  "sorting fr =
     (if sort_field (self fr) \<noteq> []
      then (let fr = params_Add ''sort'' (sort_field (self fr)) fr
            in if order_field (self fr) \<noteq> []
               then params_Add ''order'' (order_field (self fr)) fr else fr)
      else fr)"

definition Build_run :: "string list \<Rightarrow> string list \<Rightarrow> QueryBuilder \<Rightarrow> Build_frame" where
  "Build_run ks gs b =
     sorting (pagination (fold or_group_body gs (fold filters_body ks \<lparr>self = b, params = []\<rparr>)))"

definition Build :: "string list \<Rightarrow> string list \<Rightarrow> QueryBuilder \<Rightarrow> string \<times> QueryBuilder" where
  "Build ks gs b = (let fr = Build_run ks gs b in (Encode (params fr), self fr))"

subsection \<open>What Build adds, as one list of pairs\<close>

text \<open>
  Every statement of \<open>Build\<close> that touches \<open>params\<close> is a \<open>params.Add\<close>. The
  pairs it adds, in the order it adds them, are collected here; the lemmas below show
  that \<open>Build\<close> encodes exactly this list.
\<close>

definition add_all :: "(string \<times> string) list \<Rightarrow> Values \<Rightarrow> Values" where
  "add_all ps v = fold (\<lambda>p w. Add w (fst p) (snd p)) ps v"

definition filter_pairs :: "QueryBuilder \<Rightarrow> string list \<Rightarrow> (string \<times> string) list" where
  "filter_pairs b ks =
     concat (map (\<lambda>k. case filters b k of None \<Rightarrow> [] | Some x \<Rightarrow> [(k, x)]) ks)"

definition cond_pair :: "string \<Rightarrow> (string \<times> string) list" where
  "cond_pair filterStr =
     (let parts = SplitN_eq2 filterStr
      in if length parts = 2 then [(parts ! 0, parts ! 1)] else [])"

definition group_pairs :: "QueryBuilder \<Rightarrow> string \<Rightarrow> (string \<times> string) list" where
  "group_pairs b g =
     (case orFilters b g of None \<Rightarrow> [] | Some fs \<Rightarrow> concat (map cond_pair fs))"

definition or_pairs :: "QueryBuilder \<Rightarrow> string list \<Rightarrow> (string \<times> string) list" where
  "or_pairs b gs = concat (map (group_pairs b) gs)"

definition page_pairs :: "QueryBuilder \<Rightarrow> (string \<times> string) list" where
  "page_pairs b =
     (if 0 <s limit b then [(''limit'', format_d (limit b))] else []) @
     (if 0 <s offset b then [(''offset'', format_d (offset b))] else [])"

definition sort_pairs :: "QueryBuilder \<Rightarrow> (string \<times> string) list" where
  "sort_pairs b =
     (if sort_field b \<noteq> []
      then (''sort'', sort_field b) #
           (if order_field b \<noteq> [] then [(''order'', order_field b)] else [])
      else [])"

definition Build_pairs :: "string list \<Rightarrow> string list \<Rightarrow> QueryBuilder \<Rightarrow> (string \<times> string) list" where
  "Build_pairs ks gs b = filter_pairs b ks @ or_pairs b gs @ page_pairs b @ sort_pairs b"

definition segment :: "string \<Rightarrow> string \<Rightarrow> string" where
  "segment key value = QueryEscape key @ ''='' @ QueryEscape value"

definition segments :: "Values \<Rightarrow> string list" where
  "segments v = concat (map (\<lambda>k. map (segment k) (values_at v k)) (sort (map fst v)))"

text \<open>
  Reading a query string back: its pieces between the \<open>&\<close> separators, as
  \<open>strings.Split(query, "&")\<close> gives them.
\<close>

fun query_segments :: "string \<Rightarrow> string list" where
  "query_segments [] = [[]]"
| "query_segments (c # cs) =
     (if c = CHR ''&'' then [] # query_segments cs
      else (case query_segments cs of [] \<Rightarrow> [[c]] | s # ss \<Rightarrow> (c # s) # ss))"

text \<open>\<open>Encode\<close> puts \<open>&\<close> before a piece whenever its buffer is not empty.\<close>

definition amp_step :: "string \<Rightarrow> string \<Rightarrow> string" where
  "amp_step seg buf = (if buf \<noteq> [] then buf @ ''&'' else buf) @ seg"

subsection \<open>Vocabulary of the statements about the query builder\<close>

text \<open>
  \<open>stores b b' key value\<close>: the builder \<open>b'\<close> is \<open>b\<close> with \<open>value\<close> put under
  \<open>key\<close> in the filter map and nothing else changed. \<open>emits b key value\<close>: whatever
  order the two maps are ranged over, one of the pieces of the query string built from
  \<open>b\<close> is \<open>key=value\<close>, both sides query-escaped. \<open>puts\<close> is both, for a method
  that takes \<open>b\<close> to \<open>b'\<close>.
\<close>

definition stores :: "QueryBuilder \<Rightarrow> QueryBuilder \<Rightarrow> string \<Rightarrow> string \<Rightarrow> bool" where
  "stores b b' key value \<longleftrightarrow> b' = b\<lparr>filters := (filters b)(key \<mapsto> value)\<rparr>"

definition emits :: "QueryBuilder \<Rightarrow> string \<Rightarrow> string \<Rightarrow> bool" where
  "emits b key value \<longleftrightarrow>
     (\<forall>ks gs. range_order (filters b) ks \<and> range_order (orFilters b) gs \<longrightarrow>
        segment key value \<in> set (query_segments (fst (Build ks gs b))))"

definition puts :: "QueryBuilder \<Rightarrow> QueryBuilder \<Rightarrow> string \<Rightarrow> string \<Rightarrow> bool" where
  "puts b b' key value \<longleftrightarrow> stores b b' key value \<and> emits b' key value"

text \<open>
  No two of the OR groups \<open>gs\<close> hold a condition with the same parameter key, the key
  being what Build splits off a stored condition before its first \<open>=\<close>.
\<close>

definition or_keys_disjoint :: "QueryBuilder \<Rightarrow> string list \<Rightarrow> bool" where
  "or_keys_disjoint b gs \<longleftrightarrow>
     (\<forall>g\<in>set gs. \<forall>g'\<in>set gs. g \<noteq> g' \<longrightarrow>
        fst ` set (group_pairs b g) \<inter> fst ` set (group_pairs b g') = {})"

text \<open>
  A query string has a parameter named \<open>key\<close> when one of its pieces starts with the
  key and \<open>=\<close>. \<open>no_filter_named b gs key\<close>: neither a filter nor an OR condition of
  the groups \<open>gs\<close> is stored under that key.
\<close>

definition emits_key :: "string \<Rightarrow> string \<Rightarrow> bool" where
  "emits_key query key \<longleftrightarrow>
     list_ex (\<lambda>seg. take (Suc (length key)) seg = key @ ''='') (query_segments query)"

definition no_filter_named :: "QueryBuilder \<Rightarrow> string list \<Rightarrow> string \<Rightarrow> bool" where
  "no_filter_named b gs key \<longleftrightarrow> filters b key = None \<and> key \<notin> fst ` set (or_pairs b gs)"

section \<open>The client (cocobase/types.go, the client file, cocobase/auth.go)\<close>

text \<open>
  Errors are values. \<open>ErrorString\<close> is an error made from a message alone
  (\<open>fmt.Errorf\<close> without \<open>%w\<close>, or an error of a collaborator), \<open>Wrapped\<close> is
  \<open>fmt.Errorf("...: %w", err)\<close>, and \<open>APIErr\<close> is an \<open>*APIError\<close>.
\<close>

record APIError =
  StatusCode :: int
  Method :: string
  URL :: string
  Body :: string
  Suggestion :: string

datatype error = ErrorString string | Wrapped string error | APIErr APIError

definition getErrorSuggestion :: "int \<Rightarrow> string \<Rightarrow> string" where
  "getErrorSuggestion status method =
     (if status = 401 then ''Check if your API key is valid and properly set''
      else if status = 403 then
        ''You don't have permission to perform this action. Verify your access rights''
      else if status = 404 then
        ''The requested resource was not found. Verify the path and ID are correct''
      else if status = 405 then
        ''The '' @ method @
        '' method is not allowed for this endpoint. Check the API documentation for supported methods''
      else if status = 429 then
        ''You've exceeded the rate limit. Please wait before making more requests''
      else ''Check the API documentation and verify your request format'')"

text \<open>
  The \<open>Storage\<close> interface: an implementation is a state together with its three
  methods; a method that writes returns the state it leaves.
\<close>

record 's Storage =
  contents :: 's
  Get :: "'s \<Rightarrow> string \<Rightarrow> error + string"
  Set :: "'s \<Rightarrow> string \<Rightarrow> string \<Rightarrow> error option \<times> 's"
  Delete :: "'s \<Rightarrow> string \<Rightarrow> error option \<times> 's"

definition storage_Get :: "'s Storage \<Rightarrow> string \<Rightarrow> error + string" where
  "storage_Get s key = Get s (contents s) key"

definition storage_Set :: "'s Storage \<Rightarrow> string \<Rightarrow> string \<Rightarrow> error option \<times> 's Storage" where
  "storage_Set s key value =
     (case Set s (contents s) key value of (err, st) \<Rightarrow> (err, s\<lparr>contents := st\<rparr>))"

definition storage_Delete :: "'s Storage \<Rightarrow> string \<Rightarrow> error option \<times> 's Storage" where
  "storage_Delete s key =
     (case Delete s (contents s) key of (err, st) \<Rightarrow> (err, s\<lparr>contents := st\<rparr>))"

text \<open>The in-memory implementation of the storage package.\<close>

definition MemoryStorage_Get :: "(string \<rightharpoonup> string) \<Rightarrow> string \<Rightarrow> error + string" where
  "MemoryStorage_Get d key =
     (case d key of None \<Rightarrow> Inl (ErrorString (''key not found: '' @ key)) | Some value \<Rightarrow> Inr value)"

definition MemoryStorage_Set ::
  "(string \<rightharpoonup> string) \<Rightarrow> string \<Rightarrow> string \<Rightarrow> error option \<times> (string \<rightharpoonup> string)" where
  "MemoryStorage_Set d key value = (None, d(key \<mapsto> value))"

definition MemoryStorage_Delete ::
  "(string \<rightharpoonup> string) \<Rightarrow> string \<Rightarrow> error option \<times> (string \<rightharpoonup> string)" where
  "MemoryStorage_Delete d key = (None, d(key := None))"

definition NewMemoryStorage :: "(string \<rightharpoonup> string) Storage" where
  "NewMemoryStorage = \<lparr>contents = Map.empty, Get = MemoryStorage_Get, Set = MemoryStorage_Set,
     Delete = MemoryStorage_Delete\<rparr>"

text \<open>
  \<open>'v\<close> stands for the \<open>interface{}\<close> values of a JSON object; the two time stamps
  are instants counted as integers.
\<close>

record 'v AppUser =
  ID :: string
  Email :: string
  Roles :: "string list"
  Data :: "string \<rightharpoonup> 'v"
  CreatedAt :: int
  UpdatedAt :: int

record ('v, 's) Client =
  baseURL :: string
  apiKey :: string
  token :: string
  user :: "'v AppUser option"
  storage :: "'s Storage option"

record 's Config =
  APIKey :: string
  BaseURL :: string
  Storage :: "'s Storage option"

definition DefaultBaseURL :: string where
  "DefaultBaseURL = ''https://api.cocobase.com''"

definition ContentTypeJSON :: string where
  "ContentTypeJSON = ''application/json''"

definition HeaderAPIKey :: string where
  "HeaderAPIKey = ''x-api-key''"

definition HeaderAuthorization :: string where
  "HeaderAuthorization = ''Authorization''"

definition TrimSuffix :: "string \<Rightarrow> string \<Rightarrow> string" where
  "TrimSuffix s suffix =
     (if length suffix \<le> length s \<and> drop (length s - length suffix) s = suffix
      then take (length s - length suffix) s else s)"

text \<open>
  \<open>NewClient\<close>; the HTTP client of the configuration is the transport of the
  environment below, and a new client has no token and no user.
\<close>

definition NewClient :: "'s Config \<Rightarrow> ('v, 's) Client" where
  "NewClient config =
     (let config = (if BaseURL config = [] then config\<lparr>BaseURL := DefaultBaseURL\<rparr> else config)
      in \<lparr>baseURL = TrimSuffix (BaseURL config) ''/'', apiKey = APIKey config, token = [],
          user = None, storage = Storage config\<rparr>)"

text \<open>
  The methods take the client's lock for their whole body, so each is one step on the
  client's state; a method that writes returns the client it leaves.
\<close>

definition SetToken :: "string \<Rightarrow> ('v, 's) Client \<Rightarrow> error option \<times> ('v, 's) Client" where
  "SetToken t c =
     (let c = c\<lparr>token := t\<rparr>
      in case storage c of
           Some s \<Rightarrow> (case storage_Set s ''cocobase-token'' t of
                        (err, s') \<Rightarrow> (err, c\<lparr>storage := Some s'\<rparr>))
         | None \<Rightarrow> (None, c))"

definition GetToken :: "('v, 's) Client \<Rightarrow> string" where
  "GetToken c = token c"

definition IsAuthenticated :: "('v, 's) Client \<Rightarrow> bool" where
  "IsAuthenticated c \<longleftrightarrow> token c \<noteq> []"

definition HasRole :: "string \<Rightarrow> ('v, 's) Client \<Rightarrow> bool" where
  "HasRole role c = (case user c of None \<Rightarrow> False | Some u \<Rightarrow> role \<in> set (Roles u))"

definition Logout :: "('v, 's) Client \<Rightarrow> error option \<times> ('v, 's) Client" where
  "Logout c =
     (let c = c\<lparr>token := [], user := None\<rparr>
      in case storage c of
           Some s \<Rightarrow> (case storage_Delete s ''cocobase-token'' of
                        (err, s') \<Rightarrow> (err, c\<lparr>storage := Some s'\<rparr>))
         | None \<Rightarrow> (None, c))"

subsection \<open>Requests\<close>

text \<open>
  An HTTP request as \<open>request\<close> builds it and a response as it reads it: the status
  code and the bytes of the body. Header names are kept as the source writes them
  (net/http matches them without regard to case).
\<close>

record Request =
  req_method :: string
  req_url :: string
  req_header :: "string \<rightharpoonup> string"
  req_body :: "string option"

record Response =
  resp_StatusCode :: int
  resp_Body :: string

definition Header_Set :: "string \<Rightarrow> string \<Rightarrow> Request \<Rightarrow> Request" where
  "Header_Set key value req = req\<lparr>req_header := (req_header req)(key \<mapsto> value)\<rparr>"

text \<open>
  What lies outside the repository is an environment: \<open>json.Marshal\<close> of a request
  body (wrapped under \<open>"data"\<close> when the flag is set), the check that
  \<open>http.NewRequestWithContext\<close> makes of method and URL, the HTTP client's \<open>Do\<close>,
  and the JSON decoding and encoding of a user. \<open>'b\<close> is the type of request bodies.
\<close>

record ('b, 'v) env =
  json_Marshal :: "bool \<Rightarrow> 'b \<Rightarrow> error + string"
  NewRequest_check :: "string \<Rightarrow> string \<Rightarrow> error option"
  Do :: "Request \<Rightarrow> error + Response"
  decode_AppUser :: "string \<Rightarrow> error + 'v AppUser"
  marshal_AppUser :: "'v AppUser \<Rightarrow> string"

text \<open>
  The first half of \<open>request\<close>, up to the call of \<open>Do\<close>: the request that is about
  to be sent, or the error that ends the call before anything is sent.
\<close>

definition new_request ::
  "('b, 'v) env \<Rightarrow> ('v, 's) Client \<Rightarrow> string \<Rightarrow> string \<Rightarrow> 'b option \<Rightarrow> bool \<Rightarrow> error + Request" where
  "new_request e c method path body useDataKey =
     (let url = baseURL c @ path
      in case (case body of
                 None \<Rightarrow> Inr None
               | Some b \<Rightarrow> (case json_Marshal e useDataKey b of
                             Inl err \<Rightarrow> Inl (Wrapped ''failed to marshal request body'' err)
                           | Inr jsonData \<Rightarrow> Inr (Some jsonData))) of
           Inl err \<Rightarrow> Inl err
         | Inr bodyReader \<Rightarrow>
             (case NewRequest_check e method url of
                Some err \<Rightarrow> Inl (Wrapped ''failed to create request'' err)
              | None \<Rightarrow>
                  (let req = \<lparr>req_method = method, req_url = url, req_header = Map.empty,
                              req_body = bodyReader\<rparr>;
                       req = Header_Set ''Content-Type'' ContentTypeJSON req;
                       req = (if apiKey c \<noteq> [] then Header_Set HeaderAPIKey (apiKey c) req
                              else req);
                       tok = token c;
                       req = (if tok \<noteq> [] then Header_Set HeaderAuthorization (''Bearer '' @ tok) req
                              else req)
                   in Inr req)))"

text \<open>
  \<open>request\<close> returns its result together with the requests it handed to \<open>Do\<close>,
  none or one.
\<close>

definition request ::
  "('b, 'v) env \<Rightarrow> ('v, 's) Client \<Rightarrow> string \<Rightarrow> string \<Rightarrow> 'b option \<Rightarrow> bool \<Rightarrow>
     (error + Response) \<times> Request list" where
  "request e c method path body useDataKey =
     (case new_request e c method path body useDataKey of
        Inl err \<Rightarrow> (Inl err, [])
      | Inr req \<Rightarrow>
          (case Do e req of
             Inl err \<Rightarrow> (Inl (Wrapped ''request failed'' err), [req])
           | Inr resp \<Rightarrow>
               if 400 \<le> resp_StatusCode resp
               then (Inl (APIErr \<lparr>StatusCode = resp_StatusCode resp, Method = method,
                                   URL = baseURL c @ path, Body = resp_Body resp,
                                   Suggestion = getErrorSuggestion (resp_StatusCode resp) method\<rparr>),
                     [req])
               else (Inr resp, [req])))"

subsection \<open>The current user\<close>

text \<open>
  After a user has been decoded, both \<open>GetCurrentUser\<close> and \<open>UpdateUser\<close> write
  its JSON to the storage, when there is one, and drop the result of the write.
\<close>

definition cache_user :: "('b, 'v) env \<Rightarrow> 'v AppUser \<Rightarrow> ('v, 's) Client \<Rightarrow> ('v, 's) Client" where
  "cache_user e u c =
     (case storage c of
        None \<Rightarrow> c
      | Some s \<Rightarrow> c\<lparr>storage := Some (snd (storage_Set s ''cocobase-user'' (marshal_AppUser e u)))\<rparr>)"

definition GetCurrentUser ::
  "('b, 'v) env \<Rightarrow> ('v, 's) Client \<Rightarrow> (error + 'v AppUser) \<times> ('v, 's) Client \<times> Request list" where
  "GetCurrentUser e c =
     (if \<not> IsAuthenticated c then (Inl (ErrorString ''user is not authenticated''), c, [])
      else case request e c ''GET'' ''/auth-collections/user'' None True of
             (Inl err, sent) \<Rightarrow> (Inl err, c, sent)
           | (Inr resp, sent) \<Rightarrow>
               (case decode_AppUser e (resp_Body resp) of
                  Inl err \<Rightarrow> (Inl (Wrapped ''failed to decode response'' err), c, sent)
                | Inr u \<Rightarrow> (Inr u, cache_user e u c, sent)))"

definition mergeData :: "(string \<rightharpoonup> 'v) \<Rightarrow> (string \<rightharpoonup> 'v) \<Rightarrow> (string \<rightharpoonup> 'v)" where
  "mergeData current updates = Map.empty ++ current ++ updates"

text \<open>
  The body \<open>UpdateUser\<close> sends is a map with up to three keys: \<open>"data"\<close> holds a
  map, \<open>"email"\<close> and \<open>"password"\<close> hold strings.
\<close>

datatype 'v body_value = BodyMap "string \<Rightarrow> 'v option" | BodyString string

definition UpdateUser ::
  "(string \<rightharpoonup> 'v body_value, 'v) env \<Rightarrow> ('v, 's) Client \<Rightarrow> (string \<rightharpoonup> 'v) option \<Rightarrow>
     string option \<Rightarrow> string option \<Rightarrow>
     (error + 'v AppUser) \<times> ('v, 's) Client \<times> Request list" where
  "UpdateUser e c data email password =
     (if \<not> IsAuthenticated c then (Inl (ErrorString ''user is not authenticated''), c, [])
      else
        let body = Map.empty;
            body = (case data of
                      None \<Rightarrow> body
                    | Some d \<Rightarrow>
                        (let currentData = (case user c of None \<Rightarrow> Map.empty | Some u \<Rightarrow> Data u);
                             merged = mergeData currentData d
                         in body(''data'' \<mapsto> BodyMap merged)));
            body = (case email of None \<Rightarrow> body | Some m \<Rightarrow> body(''email'' \<mapsto> BodyString m));
            body = (case password of None \<Rightarrow> body | Some p \<Rightarrow> body(''password'' \<mapsto> BodyString p))
        in case request e c ''PATCH'' ''/auth-collections/user'' (Some body) False of
             (Inl err, sent) \<Rightarrow> (Inl err, c, sent)
           | (Inr resp, sent) \<Rightarrow>
               (case decode_AppUser e (resp_Body resp) of
                  Inl err \<Rightarrow> (Inl (Wrapped ''failed to decode response'' err), c, sent)
                | Inr u \<Rightarrow> (Inr u, cache_user e u (c\<lparr>user := Some u\<rparr>), sent)))"

section \<open>Realtime connections (cocobase/realtime.go)\<close>

record 'v Document =
  doc_ID :: string
  doc_Collection :: string
  doc_Data :: "string \<rightharpoonup> 'v"
  doc_CreatedAt :: int
  doc_UpdatedAt :: int

record 'v Event =
  ev_Event :: string
  ev_Data :: "'v Document"

text \<open>
  The WebSocket of the gorilla library, as far as the client uses it: how often its
  \<open>Close\<close> has been called, and what that call returns.
\<close>

record Conn =
  close_calls :: nat
  close_result :: "error option"

definition Conn_Close :: "Conn \<Rightarrow> error option \<times> Conn" where
  "Conn_Close k = (close_result k, k\<lparr>close_calls := Suc (close_calls k)\<rparr>)"

record Connection =
  conn :: Conn
  name :: string
  closed :: bool

definition Close :: "Connection \<Rightarrow> error option \<times> Connection" where
  "Close c =
     (if closed c then (None, c)
      else (let c = c\<lparr>closed := True\<rparr>
            in case Conn_Close (conn c) of (err, k) \<Rightarrow> (err, c\<lparr>conn := k\<rparr>)))"

definition IsClosed :: "Connection \<Rightarrow> bool" where
  "IsClosed c = closed c"

text \<open>\<open>strings.Replace(s, old, new, 1)\<close> for a non-empty \<open>old\<close>.\<close>

fun Replace1 :: "string \<Rightarrow> string \<Rightarrow> string \<Rightarrow> string" where
  "Replace1 [] old new = []"
| "Replace1 (c # cs) old new =
     (if take (length old) (c # cs) = old then new @ drop (length old) (c # cs)
      else c # Replace1 cs old new)"

text \<open>
  A subscription is the connection handed to the caller together with the read loop
  that \<open>WatchCollection\<close> starts: whether the loop still runs, and the events it has
  passed to the callback, oldest first.
\<close>

record 'v watch =
  connection :: Connection
  running :: bool
  callbacks :: "'v Event list"

text \<open>
  \<open>WatchCollection\<close> up to the start of the read loop. Dialling and the first write
  belong to the WebSocket library and are arguments. When the first write fails the
  source closes the WebSocket it has just opened and returns the error alone.
\<close>

definition WatchCollection ::
  "(string \<Rightarrow> error + Conn) \<Rightarrow> (Conn \<Rightarrow> string \<Rightarrow> error option) \<Rightarrow> ('u, 's) Client \<Rightarrow>
     string \<Rightarrow> string \<Rightarrow> error + 'v watch" where
  "WatchCollection dial writeAuth c collection nm =
     (let wsURL = Replace1 (baseURL c) ''http'' ''ws'';
          wsURL = wsURL @ ''/realtime/collections/'' @ collection
      in case dial wsURL of
           Inl err \<Rightarrow> Inl (Wrapped ''failed to connect to WebSocket'' err)
         | Inr k \<Rightarrow>
             (case writeAuth k (apiKey c) of
                Some err \<Rightarrow> Inl (Wrapped ''failed to send auth message'' err)
              | None \<Rightarrow>
                  (let nm = (if nm = [] then ''watch-'' @ collection else nm)
                   in Inr \<lparr>connection = \<lparr>conn = k, name = nm, closed = False\<rparr>,
                           running = True, callbacks = []\<rparr>)))"

text \<open>
  One turn of the read loop on the outcome of \<open>ReadJSON\<close>: a decoded event goes to the
  callback; an error ends the loop, and the deferred function sets the flag.
\<close>

datatype 'v read_result = ReadError error | ReadFrame "'v Event"

definition read_turn :: "'v read_result \<Rightarrow> 'v watch \<Rightarrow> 'v watch" where
  "read_turn r w =
     (case r of
        ReadError err \<Rightarrow> w\<lparr>running := False, connection := (connection w)\<lparr>closed := True\<rparr>\<rparr>
      | ReadFrame event \<Rightarrow> w\<lparr>callbacks := callbacks w @ [event]\<rparr>)"

text \<open>
  The loop runs beside the caller, and the mutex makes each access to the flag one
  step. A history of a subscription is a list of such steps in the order they happen:
  reads of the loop, and calls of \<open>Close\<close> and \<open>IsClosed\<close> by the caller. Once the
  loop has ended it reads no more.
\<close>

datatype 'v action = Read "'v read_result" | CallClose | CallIsClosed

fun step :: "'v action \<Rightarrow> 'v watch \<Rightarrow> 'v watch" where
  "step (Read r) w = (if running w then read_turn r w else w)"
| "step CallClose w = w\<lparr>connection := snd (Close (connection w))\<rparr>"
| "step CallIsClosed w = w"

definition run :: "'v action list \<Rightarrow> 'v watch \<Rightarrow> 'v watch" where
  "run as w = fold step as w"

fun reads :: "'v action list \<Rightarrow> 'v read_result list" where
  "reads [] = []"
| "reads (Read r # as) = r # reads as"
| "reads (a # as) = reads as"

fun is_frame :: "'v read_result \<Rightarrow> bool" where
  "is_frame (ReadFrame event) = True"
| "is_frame (ReadError err) = False"

fun frames :: "'v read_result list \<Rightarrow> 'v Event list" where
  "frames [] = []"
| "frames (ReadFrame event # rs) = event # frames rs"
| "frames (ReadError err # rs) = frames rs"

section \<open>Example inputs\<close>

text \<open>The client of the example programs: only an API key is configured.\<close>

definition example_client :: "(unit, unit) Client" where
  "example_client = NewClient \<lparr>APIKey = ''your-api-key'', BaseURL = [], Storage = None\<rparr>"

text \<open>
  An environment in which every request is accepted and the server answers each with
  the given response; no body of a response decodes to a user.
\<close>

definition answering :: "Response \<Rightarrow> ('b, unit) env" where
  "answering resp =
     \<lparr>json_Marshal = (\<lambda>wrap b. Inr ''{}''), NewRequest_check = (\<lambda>method url. None),
      Do = (\<lambda>req. Inr resp), decode_AppUser = (\<lambda>s. Inl (ErrorString ''unexpected end of JSON input'')),
      marshal_AppUser = (\<lambda>u. ''{}'')\<rparr>"

text \<open>An event of the \<open>users\<close> collection with the given kind and document ID.\<close>

definition user_event :: "string \<Rightarrow> string \<Rightarrow> unit Event" where
  "user_event kind docID =
     \<lparr>ev_Event = kind,
      ev_Data = \<lparr>doc_ID = docID, doc_Collection = ''users'', doc_Data = Map.empty,
                 doc_CreatedAt = 0, doc_UpdatedAt = 0\<rparr>\<rparr>"

section \<open>Properties of \<open>url.Values\<close> and of the pairs Build adds\<close>

lemma values_at_Add:
  "values_at (Add v k x) k' = (if k' = k then values_at v k @ [x] else values_at v k')"
  by (induction v k x rule: Add.induct) (auto simp: values_at_def)

lemma keys_Add: "fst ` set (Add v k x) = insert k (fst ` set v)"
  by (induction v k x rule: Add.induct) auto

lemma distinct_keys_Add: "distinct (map fst v) \<Longrightarrow> distinct (map fst (Add v k x))"
  by (induction v k x rule: Add.induct) (auto simp: keys_Add)

lemma add_all_Nil: "add_all [] v = v"
  by (simp add: add_all_def)

lemma add_all_Cons: "add_all (p # ps) v = add_all ps (Add v (fst p) (snd p))"
  by (simp add: add_all_def)

lemma add_all_append: "add_all (ps @ qs) v = add_all qs (add_all ps v)"
  by (simp add: add_all_def)

lemma values_at_add_all:
  "values_at (add_all ps v) k = values_at v k @ map snd (filter (\<lambda>p. fst p = k) ps)"
  by (induction ps arbitrary: v) (auto simp: add_all_Nil add_all_Cons values_at_Add)

lemma keys_add_all: "fst ` set (add_all ps v) = fst ` set v \<union> fst ` set ps"
  by (induction ps arbitrary: v) (simp_all add: add_all_Nil add_all_Cons keys_Add)

lemma distinct_keys_add_all: "distinct (map fst v) \<Longrightarrow> distinct (map fst (add_all ps v))"
  by (induction ps arbitrary: v) (auto simp: add_all_Nil add_all_Cons distinct_keys_Add)

subsection \<open>Build adds the pairs of \<open>Build_pairs\<close> and leaves the receiver alone\<close>

lemma params_Add_frame: "params_Add k x fr = fr\<lparr>params := add_all [(k, x)] (params fr)\<rparr>"
  by (simp add: params_Add_def add_all_def)

lemma filters_body_frame:
  "filters_body k fr = fr\<lparr>params := add_all (filter_pairs (self fr) [k]) (params fr)\<rparr>"
  by (cases "filters (self fr) k")
     (simp_all add: filters_body_def params_Add_def filter_pairs_def add_all_Cons add_all_Nil)

lemma filter_pairs_Cons: "filter_pairs b (k # ks) = filter_pairs b [k] @ filter_pairs b ks"
  by (simp add: filter_pairs_def)

lemma fold_filters_body:
  "fold filters_body ks fr = fr\<lparr>params := add_all (filter_pairs (self fr) ks) (params fr)\<rparr>"
proof (induction ks arbitrary: fr)
  case Nil
  show ?case by (simp add: filter_pairs_def add_all_Nil)
next
  case (Cons k ks)
  have "fold filters_body (k # ks) fr = fold filters_body ks (filters_body k fr)"
    by simp
  also have "\<dots> = fr\<lparr>params := add_all (filter_pairs (self fr) (k # ks)) (params fr)\<rparr>"
    by (simp add: Cons filters_body_frame filter_pairs_Cons [of _ k ks] add_all_append)
  finally show ?case .
qed

lemma or_filter_body_frame:
  "or_filter_body f fr = fr\<lparr>params := add_all (cond_pair f) (params fr)\<rparr>"
  by (simp add: or_filter_body_def cond_pair_def params_Add_def add_all_Cons add_all_Nil Let_def)

lemma fold_or_filter_body:
  "fold or_filter_body fs fr = fr\<lparr>params := add_all (concat (map cond_pair fs)) (params fr)\<rparr>"
proof (induction fs arbitrary: fr)
  case Nil
  show ?case by (simp add: add_all_Nil)
next
  case (Cons f fs)
  have "fold or_filter_body (f # fs) fr = fold or_filter_body fs (or_filter_body f fr)"
    by simp
  also have "\<dots> = fr\<lparr>params := add_all (concat (map cond_pair (f # fs))) (params fr)\<rparr>"
    by (simp add: Cons or_filter_body_frame add_all_append)
  finally show ?case .
qed

lemma or_group_body_frame:
  "or_group_body g fr = fr\<lparr>params := add_all (group_pairs (self fr) g) (params fr)\<rparr>"
  by (cases "orFilters (self fr) g")
     (simp_all add: or_group_body_def group_pairs_def fold_or_filter_body add_all_Nil)

lemma fold_or_group_body:
  "fold or_group_body gs fr = fr\<lparr>params := add_all (or_pairs (self fr) gs) (params fr)\<rparr>"
proof (induction gs arbitrary: fr)
  case Nil
  show ?case by (simp add: or_pairs_def add_all_Nil)
next
  case (Cons g gs)
  have "fold or_group_body (g # gs) fr = fold or_group_body gs (or_group_body g fr)"
    by simp
  also have "\<dots> = fr\<lparr>params := add_all (or_pairs (self fr) (g # gs)) (params fr)\<rparr>"
    by (simp add: Cons or_group_body_frame or_pairs_def add_all_append)
  finally show ?case .
qed

lemma pagination_frame:
  "pagination fr = fr\<lparr>params := add_all (page_pairs (self fr)) (params fr)\<rparr>"
  by (simp add: pagination_def page_pairs_def params_Add_def add_all_Cons add_all_Nil Let_def)

lemma sorting_frame:
  "sorting fr = fr\<lparr>params := add_all (sort_pairs (self fr)) (params fr)\<rparr>"
  by (simp add: sorting_def sort_pairs_def params_Add_def add_all_Cons add_all_Nil Let_def)

lemma Build_run_pairs:
  "Build_run ks gs b = \<lparr>self = b, params = add_all (Build_pairs ks gs b) []\<rparr>"
  by (simp add: Build_run_def Build_pairs_def fold_filters_body fold_or_group_body
      pagination_frame sorting_frame add_all_append)

subsection \<open>Encode joins the escaped pairs with \<open>&\<close>\<close>

lemma write_pair_amp: "write_pair (QueryEscape k) x buf = amp_step (segment k x) buf"
  by (simp add: write_pair_def amp_step_def segment_def)

lemma write_key_amp: "write_key v k buf = fold amp_step (map (segment k) (values_at v k)) buf"
proof -
  have "write_pair (QueryEscape k) = (\<lambda>x. amp_step (segment k x))"
    by (rule ext, rule ext) (simp add: write_pair_amp)
  then show ?thesis
    by (simp add: write_key_def fold_map comp_def)
qed

lemma fold_write_key:
  "fold (write_key v) ks buf =
   fold amp_step (concat (map (\<lambda>k. map (segment k) (values_at v k)) ks)) buf"
  by (induction ks arbitrary: buf) (simp_all add: write_key_amp)

lemma Encode_segments: "Encode v = fold amp_step (segments v) []"
  by (simp add: Encode_def segments_def fold_write_key)

lemma segment_not_Nil: "segment k x \<noteq> []"
  by (simp add: segment_def)

lemma Join_Cons_append: "Join ((x @ y) # ss) sep = x @ Join (y # ss) sep"
  by (cases ss) simp_all

lemma fold_amp_step_Join:
  "s0 \<noteq> [] \<Longrightarrow> \<forall>s\<in>set ss. s \<noteq> [] \<Longrightarrow> fold amp_step ss s0 = Join (s0 # ss) ''&''"
proof (induction ss arbitrary: s0)
  case Nil
  show ?case by simp
next
  case (Cons a ss)
  have "fold amp_step (a # ss) s0 = fold amp_step ss (s0 @ ''&'' @ a)"
    using Cons.prems by (simp add: amp_step_def)
  also have "\<dots> = Join ((s0 @ ''&'' @ a) # ss) ''&''"
    using Cons.prems by (intro Cons.IH) simp_all
  also have "\<dots> = s0 @ ''&'' @ Join (a # ss) ''&''"
    using Join_Cons_append [of s0 "''&'' @ a" ss "''&''"] Join_Cons_append [of "''&''" a ss "''&''"]
    by simp
  finally show ?case by simp
qed

lemma Encode_Join: "Encode v = Join (segments v) ''&''"
proof (cases "segments v")
  case Nil
  then show ?thesis by (simp add: Encode_segments)
next
  case (Cons s ss)
  have ne: "\<forall>t\<in>set (segments v). t \<noteq> []"
    by (auto simp: segments_def segment_not_Nil)
  have "fold amp_step (s # ss) [] = fold amp_step ss s"
    by (simp add: amp_step_def)
  also have "\<dots> = Join (s # ss) ''&''"
    using ne Cons by (intro fold_amp_step_Join) simp_all
  finally show ?thesis by (simp add: Encode_segments Cons)
qed

lemma query_segments_not_Nil: "query_segments s \<noteq> []"
  by (induction s) (auto split: list.splits)

lemma query_segments_plain: "CHR ''&'' \<notin> set s \<Longrightarrow> query_segments s = [s]"
  by (induction s) (auto split: list.splits)

lemma query_segments_amp:
  "CHR ''&'' \<notin> set s \<Longrightarrow> query_segments (s @ CHR ''&'' # t) = s # query_segments t"
  by (induction s) (auto split: list.splits simp: query_segments_not_Nil)

lemma query_segments_Join:
  "ss \<noteq> [] \<Longrightarrow> \<forall>s\<in>set ss. CHR ''&'' \<notin> set s \<Longrightarrow> query_segments (Join ss ''&'') = ss"
proof (induction ss "''&''" rule: Join.induct)
  case 1
  then show ?case by simp
next
  case (2 x)
  then show ?case by (simp add: query_segments_plain)
next
  case (3 x y ys)
  then show ?case by (simp add: query_segments_amp)
qed

subsection \<open>Escaped text holds neither \<open>&\<close> nor \<open>=\<close>\<close>

lemma of_char_less_256: "(of_char c :: nat) < 256"
proof -
  have "(of_char c :: nat) mod 256 < 256" by (rule mod_less_divisor) simp
  then show ?thesis by simp
qed

lemma upperhex_mem: "n < 16 \<Longrightarrow> upperhex n \<in> set ''0123456789ABCDEF''"
  unfolding upperhex_def by (rule nth_mem) simp

lemma upperhex_of_char:
  "upperhex (of_char c div 16) \<in> set ''0123456789ABCDEF''"
  "upperhex (of_char c mod 16) \<in> set ''0123456789ABCDEF''"
proof -
  have "(of_char c :: nat) div 16 < 16"
    using of_char_less_256 [of c] by arith
  then show "upperhex (of_char c div 16) \<in> set ''0123456789ABCDEF''"
    by (rule upperhex_mem)
  have "(of_char c :: nat) mod 16 < 16" by simp
  then show "upperhex (of_char c mod 16) \<in> set ''0123456789ABCDEF''"
    by (rule upperhex_mem)
qed

lemma not_unreserved_amp_eq: "\<not> unreserved CHR ''&''" "\<not> unreserved CHR ''=''"
  by (simp_all add: unreserved_def)

lemma escape_byte_no_amp: "CHR ''&'' \<notin> set (escape_byte c)"
  using upperhex_of_char [of c] not_unreserved_amp_eq
  by (auto simp: escape_byte_def)

lemma escape_byte_no_eq: "CHR ''='' \<notin> set (escape_byte c)"
  using upperhex_of_char [of c] not_unreserved_amp_eq
  by (auto simp: escape_byte_def)

lemma QueryEscape_no_amp: "CHR ''&'' \<notin> set (QueryEscape s)"
  by (simp add: QueryEscape_def escape_byte_no_amp)

lemma QueryEscape_no_eq: "CHR ''='' \<notin> set (QueryEscape s)"
  by (simp add: QueryEscape_def escape_byte_no_eq)

lemma segment_no_amp: "CHR ''&'' \<notin> set (segment k x)"
  by (simp add: segment_def QueryEscape_no_amp)

subsection \<open>The pieces of a built query string\<close>

lemma values_at_Nil: "values_at [] k = []"
  by (simp add: values_at_def)

lemma set_segments_add_all:
  "set (segments (add_all ps [])) = (\<lambda>p. segment (fst p) (snd p)) ` set ps"
proof -
  have "set (segments (add_all ps [])) =
        (\<Union>k\<in>fst ` set ps. segment k ` snd ` {p \<in> set ps. fst p = k})"
    using keys_add_all [of ps "[]"]
    by (simp add: segments_def values_at_add_all values_at_Nil image_image)
  also have "\<dots> = (\<lambda>p. segment (fst p) (snd p)) ` set ps"
    by force
  finally show ?thesis .
qed

lemma Build_fst: "fst (Build ks gs b) = Join (segments (add_all (Build_pairs ks gs b) [])) ''&''"
  by (simp add: Build_def Build_run_pairs Encode_Join)

lemma Build_query_segments:
  assumes "Build_pairs ks gs b \<noteq> []"
  shows "query_segments (fst (Build ks gs b)) = segments (add_all (Build_pairs ks gs b) [])"
proof -
  have "set (segments (add_all (Build_pairs ks gs b) [])) \<noteq> {}"
    using assms by (simp add: set_segments_add_all)
  then have ne: "segments (add_all (Build_pairs ks gs b) []) \<noteq> []"
    by auto
  have "\<forall>s\<in>set (segments (add_all (Build_pairs ks gs b) [])). CHR ''&'' \<notin> set s"
    by (auto simp: set_segments_add_all segment_no_amp)
  with ne show ?thesis
    by (simp add: Build_fst query_segments_Join)
qed

lemma Build_emits_pair:
  assumes "(k, x) \<in> set (Build_pairs ks gs b)"
  shows "segment k x \<in> set (query_segments (fst (Build ks gs b)))"
proof -
  have "Build_pairs ks gs b \<noteq> []" using assms by auto
  then show ?thesis
    using assms by (force simp: Build_query_segments set_segments_add_all)
qed

lemma filter_pairs_mem:
  "(k, x) \<in> set (filter_pairs b ks) \<longleftrightarrow> k \<in> set ks \<and> filters b k = Some x"
  by (auto simp: filter_pairs_def split: option.splits)

lemma Build_emits_filter:
  assumes "range_order (filters b) ks" and "filters b k = Some x"
  shows "segment k x \<in> set (query_segments (fst (Build ks gs b)))"
proof -
  have "k \<in> set ks" using assms by (auto simp: range_order_def)
  then have "(k, x) \<in> set (Build_pairs ks gs b)"
    using assms(2) by (simp add: Build_pairs_def filter_pairs_mem)
  then show ?thesis by (rule Build_emits_pair)
qed

lemma puts_update: "puts b (b\<lparr>filters := (filters b)(k \<mapsto> x)\<rparr>) k x"
  by (simp add: puts_def stores_def emits_def Build_emits_filter)

text \<open>
  C1. Each predicate method of the query builder changes the builder in one place
  only, the entry of the filter map under the field name with the method's suffix, and
  a Build of the result holds that entry as a \<open>key=value\<close> piece of the query string
  (both sides query-escaped), whatever order the maps are ranged over.
\<close>

theorem predicate_methods_put_suffixed_key:
  "puts b (Where f v b) f (Sprint_v v) \<and>
   puts b (Equals f v b) f (Sprint_v v) \<and>
   puts b (NotEquals f v b) (f @ ''_ne'') (Sprint_v v) \<and>
   puts b (GreaterThan f v b) (f @ ''_gt'') (Sprint_v v) \<and>
   puts b (GreaterThanOrEqual f v b) (f @ ''_gte'') (Sprint_v v) \<and>
   puts b (LessThan f v b) (f @ ''_lt'') (Sprint_v v) \<and>
   puts b (LessThanOrEqual f v b) (f @ ''_lte'') (Sprint_v v) \<and>
   puts b (Contains f s b) (f @ ''_contains'') s \<and>
   puts b (StartsWith f s b) (f @ ''_startswith'') s \<and>
   puts b (EndsWith f s b) (f @ ''_endswith'') s \<and>
   puts b (In f vs b) (f @ ''_in'') (Join (map Sprint_v vs) '','') \<and>
   puts b (NotIn f vs b) (f @ ''_notin'') (Join (map Sprint_v vs) '','') \<and>
   puts b (IsNull f b) (f @ ''_isnull'') ''true'' \<and>
   puts b (IsNotNull f b) (f @ ''_isnull'') ''false''"
  by (simp add: Where_def Equals_def NotEquals_def GreaterThan_def GreaterThanOrEqual_def
      LessThan_def LessThanOrEqual_def Contains_def StartsWith_def EndsWith_def In_def
      NotIn_def IsNull_def IsNotNull_def Let_def puts_update)

theorem predicate_methods_put_suffixed_key_witness:
  "range_order (filters (GreaterThan ''age'' (GoInt 18) NewQuery)) [''age_gt''] \<and>
   range_order (orFilters (GreaterThan ''age'' (GoInt 18) NewQuery)) [] \<and>
   filters (GreaterThan ''age'' (GoInt 18) NewQuery) ''age_gt'' = Some ''18'' \<and>
   ''age_gt=18'' \<in> set (query_segments
      (fst (Build [''age_gt''] [] (GreaterThan ''age'' (GoInt 18) NewQuery))))"
proof -
  let ?b = "GreaterThan ''age'' (GoInt 18) NewQuery"
  have ro: "range_order (filters ?b) [''age_gt'']" "range_order (orFilters ?b) []"
    by (simp_all add: range_order_def GreaterThan_def NewQuery_def)
  have v: "format_d 18 = ''18''" by code_simp
  have s: "segment ''age_gt'' ''18'' = ''age_gt=18''" by code_simp
  have "puts NewQuery ?b (''age'' @ ''_gt'') (Sprint_v (GoInt 18))"
    using predicate_methods_put_suffixed_key [of NewQuery "''age''" "GoInt 18"] by simp
  then have "stores NewQuery ?b ''age_gt'' ''18''" "emits ?b ''age_gt'' ''18''"
    by (simp_all add: puts_def v)
  then show ?thesis
    using ro s by (auto simp: emits_def stores_def)
qed

subsection \<open>The order of ranging over the maps\<close>

lemma segments_cong:
  assumes "distinct (map fst v)" and "distinct (map fst w)"
    and "fst ` set v = fst ` set w" and "\<And>k. values_at v k = values_at w k"
  shows "segments v = segments w"
proof -
  have "sort (map fst v) = sort (map fst w)"
    using assms(1-3) by (intro sorted_distinct_set_unique) simp_all
  then show ?thesis
    by (simp add: segments_def assms(4))
qed

lemma fst_image_filter:
  assumes "\<And>k. filter (\<lambda>p. fst p = k) ps = filter (\<lambda>p. fst p = k) qs"
  shows "fst ` set ps = fst ` set qs"
proof -
  have "k \<in> fst ` set ps \<longleftrightarrow> k \<in> fst ` set qs" for k
  proof -
    have "k \<in> fst ` set ps \<longleftrightarrow> filter (\<lambda>p. fst p = k) ps \<noteq> []"
      by (auto simp: filter_empty_conv)
    also have "\<dots> \<longleftrightarrow> filter (\<lambda>p. fst p = k) qs \<noteq> []"
      by (simp add: assms)
    also have "\<dots> \<longleftrightarrow> k \<in> fst ` set qs"
      by (auto simp: filter_empty_conv)
    finally show ?thesis .
  qed
  then show ?thesis by blast
qed

lemma Encode_add_all_cong:
  assumes "\<And>k. filter (\<lambda>p. fst p = k) ps = filter (\<lambda>p. fst p = k) qs"
  shows "Encode (add_all ps []) = Encode (add_all qs [])"
proof -
  have "segments (add_all ps []) = segments (add_all qs [])"
  proof (rule segments_cong)
    show "distinct (map fst (add_all ps []))" "distinct (map fst (add_all qs []))"
      by (simp_all add: distinct_keys_add_all)
    show "fst ` set (add_all ps []) = fst ` set (add_all qs [])"
      using fst_image_filter [OF assms] by (simp add: keys_add_all)
    show "values_at (add_all ps []) k = values_at (add_all qs []) k" for k
      by (simp add: values_at_add_all assms)
  qed
  then show ?thesis by (simp add: Encode_Join)
qed

lemma filter_filter_pairs:
  "distinct ks \<Longrightarrow>
   filter (\<lambda>p. fst p = k) (filter_pairs b ks) =
   (if k \<in> set ks then (case filters b k of None \<Rightarrow> [] | Some x \<Rightarrow> [(k, x)]) else [])"
proof (induction ks)
  case Nil
  show ?case by (simp add: filter_pairs_def)
next
  case (Cons a ks)
  have "filter (\<lambda>p. fst p = k) (filter_pairs b [a]) =
        (if k = a then (case filters b k of None \<Rightarrow> [] | Some x \<Rightarrow> [(k, x)]) else [])"
    by (simp add: filter_pairs_def split: option.splits)
  with Cons show ?case
    by (auto simp: filter_pairs_Cons [of b a ks])
qed

lemma concat_map_single:
  "distinct gs \<Longrightarrow> \<forall>g\<in>set gs. g \<noteq> g0 \<longrightarrow> f g = [] \<Longrightarrow>
   concat (map f gs) = (if g0 \<in> set gs then f g0 else [])"
  by (induction gs) auto

lemma concat_map_all_Nil: "\<forall>g\<in>set gs. f g = [] \<Longrightarrow> concat (map f gs) = []"
  by (induction gs) auto

lemma filter_or_pairs:
  "filter P (or_pairs b gs) = concat (map (\<lambda>g. filter P (group_pairs b g)) gs)"
  by (simp add: or_pairs_def filter_concat comp_def)

lemma filter_or_pairs_order:
  assumes "distinct gs" "distinct gs'" "set gs = set gs'" "or_keys_disjoint b gs"
  shows "filter (\<lambda>p. fst p = k) (or_pairs b gs) = filter (\<lambda>p. fst p = k) (or_pairs b gs')"
proof (cases "\<exists>g0\<in>set gs. filter (\<lambda>p. fst p = k) (group_pairs b g0) \<noteq> []")
  case False
  then show ?thesis
    using assms(3) by (simp add: filter_or_pairs concat_map_all_Nil)
next
  case True
  then obtain g0 where g0: "g0 \<in> set gs" "filter (\<lambda>p. fst p = k) (group_pairs b g0) \<noteq> []"
    by blast
  then have k0: "k \<in> fst ` set (group_pairs b g0)"
    by (auto simp: filter_empty_conv)
  have other: "\<forall>g\<in>set gs. g \<noteq> g0 \<longrightarrow> filter (\<lambda>p. fst p = k) (group_pairs b g) = []"
  proof (intro ballI impI)
    fix g assume "g \<in> set gs" "g \<noteq> g0"
    with assms(4) g0(1)
    have "fst ` set (group_pairs b g) \<inter> fst ` set (group_pairs b g0) = {}"
      by (simp add: or_keys_disjoint_def)
    with k0 have "k \<notin> fst ` set (group_pairs b g)" by blast
    then show "filter (\<lambda>p. fst p = k) (group_pairs b g) = []"
      by (auto simp: filter_empty_conv)
  qed
  have "filter (\<lambda>p. fst p = k) (or_pairs b gs) = filter (\<lambda>p. fst p = k) (group_pairs b g0)"
    using concat_map_single [OF assms(1) other] g0(1) by (simp add: filter_or_pairs)
  moreover
  have "filter (\<lambda>p. fst p = k) (or_pairs b gs') = filter (\<lambda>p. fst p = k) (group_pairs b g0)"
    using concat_map_single [OF assms(2), of g0 "\<lambda>g. filter (\<lambda>p. fst p = k) (group_pairs b g)"]
      other g0(1) assms(3)
    by (simp add: filter_or_pairs)
  ultimately show ?thesis by simp
qed

text \<open>
  C2 (amended). Build's string does not depend on the order in which Go ranges over
  the two maps, as long as no two OR groups hold a condition with the same parameter
  key (the text of the condition before its first \<open>=\<close>).
\<close>

theorem Build_deterministic_on_disjoint_groups:
  assumes "range_order (filters b) ks" and "range_order (filters b) ks'"
    and "range_order (orFilters b) gs" and "range_order (orFilters b) gs'"
    and "or_keys_disjoint b gs"
  shows "fst (Build ks gs b) = fst (Build ks' gs' b)"
proof -
  have ks: "distinct ks" "distinct ks'" "set ks = set ks'"
    using assms(1,2) by (auto simp: range_order_def)
  have gs: "distinct gs" "distinct gs'" "set gs = set gs'"
    using assms(3,4) by (auto simp: range_order_def)
  have "filter (\<lambda>p. fst p = k) (Build_pairs ks gs b) =
        filter (\<lambda>p. fst p = k) (Build_pairs ks' gs' b)" for k
    using filter_or_pairs_order [OF gs assms(5), of k] ks
    by (simp add: Build_pairs_def filter_filter_pairs)
  then have "Encode (add_all (Build_pairs ks gs b) []) = Encode (add_all (Build_pairs ks' gs' b) [])"
    by (rule Encode_add_all_cong)
  then show ?thesis
    by (simp add: Build_def Build_run_pairs)
qed

theorem Build_order_dependent_counterexample:
  "range_order (filters (Done (Or_Where ''b'' (GoInt 2) (OrGroup ''a]''
       (Done (Or_Where '']b'' (GoInt 1) (OrGroup ''a'' NewQuery))))))) [] \<and>
   range_order (orFilters (Done (Or_Where ''b'' (GoInt 2) (OrGroup ''a]''
       (Done (Or_Where '']b'' (GoInt 1) (OrGroup ''a'' NewQuery))))))) [''a'', ''a]''] \<and>
   range_order (orFilters (Done (Or_Where ''b'' (GoInt 2) (OrGroup ''a]''
       (Done (Or_Where '']b'' (GoInt 1) (OrGroup ''a'' NewQuery))))))) [''a]'', ''a''] \<and>
   fst (Build [] [''a'', ''a]''] (Done (Or_Where ''b'' (GoInt 2) (OrGroup ''a]''
       (Done (Or_Where '']b'' (GoInt 1) (OrGroup ''a'' NewQuery))))))) =
     ''%5Bor%3Aa%5D%5Db=1&%5Bor%3Aa%5D%5Db=2'' \<and>
   fst (Build [] [''a]'', ''a''] (Done (Or_Where ''b'' (GoInt 2) (OrGroup ''a]''
       (Done (Or_Where '']b'' (GoInt 1) (OrGroup ''a'' NewQuery))))))) =
     ''%5Bor%3Aa%5D%5Db=2&%5Bor%3Aa%5D%5Db=1'' \<and>
   fst (Build [] [''a'', ''a]''] (Done (Or_Where ''b'' (GoInt 2) (OrGroup ''a]''
       (Done (Or_Where '']b'' (GoInt 1) (OrGroup ''a'' NewQuery))))))) \<noteq>
   fst (Build [] [''a]'', ''a''] (Done (Or_Where ''b'' (GoInt 2) (OrGroup ''a]''
       (Done (Or_Where '']b'' (GoInt 1) (OrGroup ''a'' NewQuery)))))))"
proof -
  let ?b = "Done (Or_Where ''b'' (GoInt 2) (OrGroup ''a]''
       (Done (Or_Where '']b'' (GoInt 1) (OrGroup ''a'' NewQuery)))))"
  have f: "range_order (filters ?b) []"
    by (simp add: range_order_def Done_def Or_Where_def addCondition_def OrGroup_def
        NewQuery_def Let_def)
  have g: "range_order (orFilters ?b) [''a'', ''a]'']" "range_order (orFilters ?b) [''a]'', ''a'']"
    by (auto simp: range_order_def Done_def Or_Where_def addCondition_def OrGroup_def
        NewQuery_def Let_def)
  have one: "fst (Build [] [''a'', ''a]''] ?b) = ''%5Bor%3Aa%5D%5Db=1&%5Bor%3Aa%5D%5Db=2''"
    by code_simp
  have two: "fst (Build [] [''a]'', ''a''] ?b) = ''%5Bor%3Aa%5D%5Db=2&%5Bor%3Aa%5D%5Db=1''"
    by code_simp
  show ?thesis
    using f g by (simp add: one two)
qed

theorem Build_deterministic_on_disjoint_groups_witness:
  "fst (Build [''status'', ''age''] [''tier'', ''location'']
       (Done (Or_Where ''country'' (GoString ''US'') (OrGroup ''location''
         (Done (Or_Where ''isPremium'' (GoBool True) (OrGroup ''tier''
           (Where ''status'' (GoString ''active'') (Where ''age'' (GoInt 18) NewQuery)))))))))
   = fst (Build [''age'', ''status''] [''location'', ''tier'']
       (Done (Or_Where ''country'' (GoString ''US'') (OrGroup ''location''
         (Done (Or_Where ''isPremium'' (GoBool True) (OrGroup ''tier''
           (Where ''status'' (GoString ''active'') (Where ''age'' (GoInt 18) NewQuery)))))))))"
proof -
  let ?b = "Done (Or_Where ''country'' (GoString ''US'') (OrGroup ''location''
         (Done (Or_Where ''isPremium'' (GoBool True) (OrGroup ''tier''
           (Where ''status'' (GoString ''active'') (Where ''age'' (GoInt 18) NewQuery)))))))"
  have f: "range_order (filters ?b) [''status'', ''age'']"
    "range_order (filters ?b) [''age'', ''status'']"
    by (auto simp: range_order_def Done_def Or_Where_def addCondition_def OrGroup_def
        NewQuery_def Where_def Let_def)
  have g: "range_order (orFilters ?b) [''tier'', ''location'']"
    "range_order (orFilters ?b) [''location'', ''tier'']"
    by (auto simp: range_order_def Done_def Or_Where_def addCondition_def OrGroup_def
        NewQuery_def Where_def Let_def)
  have d: "or_keys_disjoint ?b [''tier'', ''location'']"
    by code_simp
  show ?thesis
    using Build_deterministic_on_disjoint_groups [OF f g d] .
qed

text \<open>
  C3. Build returns the receiver as it found it: none of the six fields changes, so a
  second Build, or a further filter method, works on the state from before the call.
\<close>

theorem Build_leaves_builder_unchanged:
  "snd (Build ks gs b) = b \<and>
   filters (snd (Build ks gs b)) = filters b \<and>
   orFilters (snd (Build ks gs b)) = orFilters b \<and>
   limit (snd (Build ks gs b)) = limit b \<and>
   offset (snd (Build ks gs b)) = offset b \<and>
   sort_field (snd (Build ks gs b)) = sort_field b \<and>
   order_field (snd (Build ks gs b)) = order_field b \<and>
   Build ks' gs' (snd (Build ks gs b)) = Build ks' gs' b \<and>
   Where f v (snd (Build ks gs b)) = Where f v b"
proof -
  have "self (fold filters_body ks fr) = self fr" for fr
    by (simp add: fold_filters_body)
  moreover have "self (fold or_group_body gs fr) = self fr" for fr
    by (simp add: fold_or_group_body)
  moreover have "self (pagination fr) = self fr" for fr
    by (simp add: pagination_frame)
  moreover have "self (sorting fr) = self fr" for fr
    by (simp add: sorting_frame)
  ultimately have "self (Build_run ks gs b) = b"
    by (simp add: Build_run_def)
  then have "snd (Build ks gs b) = b"
    by (simp add: Build_def Let_def)
  then show ?thesis by simp
qed

subsection \<open>Parameter names and pagination\<close>

lemma escape_byte_not_Nil: "escape_byte c \<noteq> []"
  by (simp add: escape_byte_def)

lemma not_unreserved_plus_percent: "\<not> unreserved CHR ''+''" "\<not> unreserved CHR ''%''"
  by (simp_all add: unreserved_def)

lemma QueryEscape_Cons: "QueryEscape (c # cs) = escape_byte c @ QueryEscape cs"
  by (simp add: QueryEscape_def)

lemma QueryEscape_unreserved: "\<forall>c\<in>set s. unreserved c \<Longrightarrow> QueryEscape s = s"
  by (induction s) (simp_all add: QueryEscape_def escape_byte_def)

lemma QueryEscape_eq_unreserved:
  "\<forall>c\<in>set key. unreserved c \<Longrightarrow> QueryEscape k = key \<longleftrightarrow> k = key"
proof (induction key arbitrary: k)
  case Nil
  show ?case
    by (cases k) (simp_all add: QueryEscape_def escape_byte_not_Nil)
next
  case (Cons c cs)
  show ?case
  proof (cases k)
    case Nil
    then show ?thesis by (simp add: QueryEscape_def)
  next
    case (Cons d ds)
    have IH: "QueryEscape ds = cs \<longleftrightarrow> ds = cs"
      using Cons.prems by (intro Cons.IH) simp
    have c: "unreserved c" using Cons.prems by simp
    show ?thesis
    proof (cases "unreserved d")
      case True
      then show ?thesis
        using IH by (simp add: Cons QueryEscape_Cons escape_byte_def)
    next
      case False
      then have "hd (escape_byte d) = CHR ''+'' \<or> hd (escape_byte d) = CHR ''%''"
        by (simp add: escape_byte_def)
      then have "hd (QueryEscape k) \<noteq> c"
        using c not_unreserved_plus_percent escape_byte_not_Nil [of d]
        by (auto simp: Cons QueryEscape_Cons)
      moreover have "d \<noteq> c" using False c by auto
      ultimately show ?thesis
        by (auto simp: Cons)
    qed
  qed
qed

lemma take_key_eq:
  "CHR ''='' \<notin> set e \<Longrightarrow> CHR ''='' \<notin> set key \<Longrightarrow>
   take (Suc (length key)) (e @ CHR ''='' # rest) = key @ ''='' \<longleftrightarrow> e = key"
proof (induction key arbitrary: e)
  case Nil
  then show ?case by (cases e) auto
next
  case (Cons c cs)
  then show ?case by (cases e) auto
qed

lemma segment_has_key:
  assumes "\<forall>c\<in>set key. unreserved c"
  shows "take (Suc (length key)) (segment k x) = key @ ''='' \<longleftrightarrow> k = key"
proof -
  have "CHR ''='' \<notin> set key"
    using assms not_unreserved_amp_eq by auto
  then have "take (Suc (length key)) (segment k x) = key @ ''='' \<longleftrightarrow> QueryEscape k = key"
    using take_key_eq [of "QueryEscape k" key "QueryEscape x"] QueryEscape_no_eq [of k]
    by (simp add: segment_def)
  then show ?thesis
    by (simp add: QueryEscape_eq_unreserved [OF assms])
qed

lemma emits_key_Build:
  assumes "\<forall>c\<in>set key. unreserved c"
  shows "emits_key (fst (Build ks gs b)) key \<longleftrightarrow> key \<in> fst ` set (Build_pairs ks gs b)"
proof (cases "Build_pairs ks gs b = []")
  case True
  then have "fst (Build ks gs b) = []"
    by (simp add: Build_fst add_all_Nil segments_def)
  then show ?thesis
    using True by (simp add: emits_key_def)
next
  case False
  have "emits_key (fst (Build ks gs b)) key \<longleftrightarrow>
        (\<exists>p\<in>set (Build_pairs ks gs b).
           take (Suc (length key)) (segment (fst p) (snd p)) = key @ ''='')"
    by (simp add: emits_key_def list_ex_iff Build_query_segments [OF False] set_segments_add_all)
  also have "\<dots> \<longleftrightarrow> (\<exists>p\<in>set (Build_pairs ks gs b). fst p = key)"
    by (simp add: segment_has_key [OF assms])
  also have "\<dots> \<longleftrightarrow> key \<in> fst ` set (Build_pairs ks gs b)"
    by auto
  finally show ?thesis .
qed

lemma digit_char_unreserved: "n < 10 \<Longrightarrow> unreserved (digit_char n)"
proof -
  assume "n < 10"
  then have "digit_char n \<in> set ''0123456789''"
    unfolding digit_char_def by (intro nth_mem) simp
  then show ?thesis
    by (auto simp: unreserved_def)
qed

lemma decimal_unreserved: "\<forall>c\<in>set (decimal n). unreserved c"
proof (induction n rule: decimal.induct)
  case (1 n)
  show ?case
  proof (cases "n < 10")
    case True
    then show ?thesis
      by (subst decimal.simps) (simp add: digit_char_unreserved)
  next
    case False
    then show ?thesis
      using 1 by (subst decimal.simps) (auto simp: digit_char_unreserved)
  qed
qed

lemma format_d_unreserved: "\<forall>c\<in>set (format_d i). unreserved c"
proof -
  have "unreserved CHR ''-''" by (simp add: unreserved_def)
  then show ?thesis
    using decimal_unreserved by (auto simp: format_d_def)
qed

lemma segment_format_d:
  "\<forall>c\<in>set key. unreserved c \<Longrightarrow> segment key (format_d i) = key @ ''='' @ format_d i"
  by (simp add: segment_def QueryEscape_unreserved format_d_unreserved)

lemma unreserved_limit_offset:
  "\<forall>c\<in>set ''limit''. unreserved c" "\<forall>c\<in>set ''offset''. unreserved c"
  by (simp_all add: unreserved_def)

lemma limit_key_Build_pairs:
  assumes "range_order (filters b) ks" and "no_filter_named b gs ''limit''"
  shows "''limit'' \<in> fst ` set (Build_pairs ks gs b) \<longleftrightarrow> 0 <s limit b"
proof -
  have "''limit'' \<notin> fst ` set (filter_pairs b ks)"
    using assms(2) by (auto simp: no_filter_named_def filter_pairs_mem)
  moreover have "''limit'' \<notin> fst ` set (or_pairs b gs)"
    using assms(2) by (simp add: no_filter_named_def)
  moreover have "''limit'' \<notin> fst ` set (sort_pairs b)"
    by (auto simp: sort_pairs_def)
  moreover have "''limit'' \<in> fst ` set (page_pairs b) \<longleftrightarrow> 0 <s limit b"
    by (auto simp: page_pairs_def)
  ultimately show ?thesis
    by (simp add: Build_pairs_def image_Un)
qed

lemma offset_key_Build_pairs:
  assumes "range_order (filters b) ks" and "no_filter_named b gs ''offset''"
  shows "''offset'' \<in> fst ` set (Build_pairs ks gs b) \<longleftrightarrow> 0 <s offset b"
proof -
  have "''offset'' \<notin> fst ` set (filter_pairs b ks)"
    using assms(2) by (auto simp: no_filter_named_def filter_pairs_mem)
  moreover have "''offset'' \<notin> fst ` set (or_pairs b gs)"
    using assms(2) by (simp add: no_filter_named_def)
  moreover have "''offset'' \<notin> fst ` set (sort_pairs b)"
    by (auto simp: sort_pairs_def)
  moreover have "''offset'' \<in> fst ` set (page_pairs b) \<longleftrightarrow> 0 <s offset b"
    by (auto simp: page_pairs_def)
  ultimately show ?thesis
    by (simp add: Build_pairs_def image_Un)
qed

lemma Build_emits_limit:
  "0 <s limit b \<Longrightarrow> ''limit='' @ format_d (limit b) \<in> set (query_segments (fst (Build ks gs b)))"
  using Build_emits_pair [of "''limit''" "format_d (limit b)" ks gs b]
    segment_format_d [OF unreserved_limit_offset(1), of "limit b"]
  by (simp add: Build_pairs_def page_pairs_def)

lemma Build_emits_offset:
  "0 <s offset b \<Longrightarrow> ''offset='' @ format_d (offset b) \<in> set (query_segments (fst (Build ks gs b)))"
  using Build_emits_pair [of "''offset''" "format_d (offset b)" ks gs b]
    segment_format_d [OF unreserved_limit_offset(2), of "offset b"]
  by (simp add: Build_pairs_def page_pairs_def)

lemma Page_fields:
  "Page page perPage b =
     b\<lparr>limit := perPage, offset := (if page <s 1 then 0 else (page - 1) * perPage)\<rparr>"
  by (simp add: Page_def Let_def)

lemma sint_Page_offset:
  assumes "- (2 ^ 63) \<le> (max 1 (sint page) - 1) * sint perPage"
    and "(max 1 (sint page) - 1) * sint perPage < 2 ^ 63"
  shows "sint (offset (Page page perPage b)) = (max 1 (sint page) - 1) * sint perPage"
proof (cases "page <s 1")
  case True
  then have "sint page < 1" by (simp add: word_sless_alt)
  then show ?thesis using True by (simp add: Page_fields max_def)
next
  case False
  then have p: "1 \<le> sint page" by (simp add: word_sless_alt)
  have lt: "sint page < 2 ^ 63" using sint_lt [of page] by simp
  have "sint (page - 1) = sint page - 1"
    using p lt by (simp add: sint_word_ariths signed_take_bit_int_eq_self)
  moreover have "sint ((page - 1) * perPage) = sint (page - 1) * sint perPage"
    using assms p calculation
    by (simp add: sint_word_ariths signed_take_bit_int_eq_self max_def)
  ultimately show ?thesis
    using False p by (simp add: Page_fields max_def)
qed

text \<open>
  C4 (amended). When the stored limit is above zero, Build emits \<open>limit=\<close> followed
  by its decimal digits, and likewise for the offset. When no filter and no OR
  condition is itself keyed \<open>limit\<close> (or \<open>offset\<close>), the query string holds a
  parameter of that name exactly when the stored number is above zero. Page stores
  perPage as the limit and (page - 1) * perPage, in Go's wrapping arithmetic and with a
  page below 1 counted as 1, as the offset; without overflow that is the product of the
  integers.
\<close>

theorem pagination_serialization:
  "(0 <s limit b \<longrightarrow>
      ''limit='' @ format_d (limit b) \<in> set (query_segments (fst (Build ks gs b)))) \<and>
   (0 <s offset b \<longrightarrow>
      ''offset='' @ format_d (offset b) \<in> set (query_segments (fst (Build ks gs b)))) \<and>
   (range_order (filters b) ks \<and> no_filter_named b gs ''limit'' \<longrightarrow>
      (emits_key (fst (Build ks gs b)) ''limit'' \<longleftrightarrow> 0 <s limit b)) \<and>
   (range_order (filters b) ks \<and> no_filter_named b gs ''offset'' \<longrightarrow>
      (emits_key (fst (Build ks gs b)) ''offset'' \<longleftrightarrow> 0 <s offset b)) \<and>
   Page page perPage b =
     b\<lparr>limit := perPage, offset := ((if page <s 1 then 1 else page) - 1) * perPage\<rparr> \<and>
   offset (Page 0 perPage b) = 0 \<and> offset (Page 1 perPage b) = 0 \<and>
   (- (2 ^ 63) \<le> (max 1 (sint page) - 1) * sint perPage \<and>
    (max 1 (sint page) - 1) * sint perPage < 2 ^ 63 \<longrightarrow>
      sint (offset (Page page perPage b)) = (max 1 (sint page) - 1) * sint perPage)"
proof -
  have "Page page perPage b =
     b\<lparr>limit := perPage, offset := ((if page <s 1 then 1 else page) - 1) * perPage\<rparr>"
    by (simp add: Page_def Let_def)
  moreover have "offset (Page 0 perPage b) = 0" "offset (Page 1 perPage b) = 0"
    by (simp_all add: Page_fields word_sless_alt)
  ultimately show ?thesis
    using Build_emits_limit [of b ks gs] Build_emits_offset [of b ks gs]
      limit_key_Build_pairs [of b ks gs] offset_key_Build_pairs [of b ks gs]
      sint_Page_offset [of page perPage b]
    by (simp add: emits_key_Build unreserved_limit_offset)
qed

theorem pagination_serialization_witness:
  "0 <s limit (Page 3 20 NewQuery) \<and> 0 <s offset (Page 3 20 NewQuery) \<and>
   range_order (filters (Page 3 20 NewQuery)) [] \<and>
   no_filter_named (Page 3 20 NewQuery) [] ''limit'' \<and>
   no_filter_named (Page 3 20 NewQuery) [] ''offset'' \<and>
   fst (Build [] [] (Page 3 20 NewQuery)) = ''limit=20&offset=40'' \<and>
   ''limit=20'' \<in> set (query_segments (fst (Build [] [] (Page 3 20 NewQuery)))) \<and>
   ''offset=40'' \<in> set (query_segments (fst (Build [] [] (Page 3 20 NewQuery)))) \<and>
   emits_key (fst (Build [] [] (Page 3 20 NewQuery))) ''limit'' \<and>
   emits_key (fst (Build [] [] (Page 3 20 NewQuery))) ''offset'' \<and>
   sint (offset (Page 3 20 NewQuery)) = 40"
proof -
  let ?b = "Page 3 20 NewQuery"
  have l: "0 <s limit ?b" "0 <s offset ?b"
    by (simp_all add: Page_def NewQuery_def Let_def word_sless_alt)
  have r: "range_order (filters ?b) []"
    by (simp add: range_order_def Page_def NewQuery_def Let_def)
  have n: "no_filter_named ?b [] ''limit''" "no_filter_named ?b [] ''offset''"
    by (simp_all add: no_filter_named_def or_pairs_def Page_def NewQuery_def Let_def)
  have f: "format_d (limit ?b) = ''20''" "format_d (offset ?b) = ''40''"
    by code_simp+
  have q: "fst (Build [] [] ?b) = ''limit=20&offset=40''"
    by code_simp
  have s: "sint (3 :: go_int) = 3" "sint (20 :: go_int) = 20"
    by simp_all
  have o: "- (2 ^ 63) \<le> (max 1 (sint (3 :: go_int)) - 1) * sint (20 :: go_int) \<and>
    (max 1 (sint (3 :: go_int)) - 1) * sint (20 :: go_int) < 2 ^ 63"
    by (simp add: s)
  note T = pagination_serialization [of ?b "[]" "[]" 3 20]
  note U = pagination_serialization [of NewQuery "[]" "[]" 3 20]
  have A: "''limit='' @ format_d (limit ?b) \<in> set (query_segments (fst (Build [] [] ?b)))"
    using T l(1) by blast
  have B: "''offset='' @ format_d (offset ?b) \<in> set (query_segments (fst (Build [] [] ?b)))"
    using T l(2) by blast
  have C: "emits_key (fst (Build [] [] ?b)) ''limit''"
    using T l(1) r n(1) by blast
  have D: "emits_key (fst (Build [] [] ?b)) ''offset''"
    using T l(2) r n(2) by blast
  have E: "sint (offset ?b) = (max 1 (sint (3 :: go_int)) - 1) * sint (20 :: go_int)"
    using U o by blast
  have F: "sint (offset ?b) = 40"
    using E by (simp add: s)
  show ?thesis
    using l r n q A B C D F by (simp only: f append.simps)
qed

theorem limit_parameter_counterexample:
  "range_order (filters (Where ''limit'' (GoInt 5) NewQuery)) [''limit''] \<and>
   range_order (orFilters (Where ''limit'' (GoInt 5) NewQuery)) [] \<and>
   limit (Where ''limit'' (GoInt 5) NewQuery) = 0 \<and>
   \<not> 0 <s limit (Where ''limit'' (GoInt 5) NewQuery) \<and>
   fst (Build [''limit''] [] (Where ''limit'' (GoInt 5) NewQuery)) = ''limit=5'' \<and>
   emits_key (fst (Build [''limit''] [] (Where ''limit'' (GoInt 5) NewQuery))) ''limit''"
proof -
  let ?b = "Where ''limit'' (GoInt 5) NewQuery"
  have r: "range_order (filters ?b) [''limit'']" "range_order (orFilters ?b) []"
    by (simp_all add: range_order_def Where_def NewQuery_def)
  have l: "limit ?b = 0"
    by (simp add: Where_def NewQuery_def)
  have q: "fst (Build [''limit''] [] ?b) = ''limit=5''"
    by code_simp
  have e: "emits_key ''limit=5'' ''limit''"
    by (simp add: emits_key_def)
  show ?thesis
    using r l e by (simp add: q)
qed

section \<open>The client's token, its requests and its errors\<close>

lemma token_SetToken: "token (snd (SetToken t c)) = t"
  by (simp add: SetToken_def Let_def split: option.splits prod.splits)

lemma token_Logout: "token (snd (Logout c)) = []" "user (snd (Logout c)) = None"
  by (simp_all add: Logout_def Let_def split: option.splits prod.splits)

text \<open>
  C5. A client is authenticated exactly when its token is not empty. SetToken stores
  the token it is given and Logout empties the token and drops the cached user, both
  whether or not the storage accepts the write.
\<close>

theorem token_is_authentication_state:
  "(IsAuthenticated c \<longleftrightarrow> GetToken c \<noteq> []) \<and>
   GetToken (snd (SetToken t c)) = t \<and>
   GetToken (snd (Logout c)) = [] \<and>
   user (snd (Logout c)) = None \<and>
   \<not> IsAuthenticated (snd (Logout c))"
  by (simp add: IsAuthenticated_def GetToken_def token_SetToken token_Logout)

lemma new_request_fields:
  assumes "new_request e c method path body useDataKey = Inr req"
  shows "req_url req = baseURL c @ path"
    and "req_method req = method"
    and "req_header req ''Content-Type'' = Some ''application/json''"
    and "req_header req ''x-api-key'' = (if apiKey c \<noteq> [] then Some (apiKey c) else None)"
    and "req_header req ''Authorization'' =
           (if token c \<noteq> [] then Some (''Bearer '' @ token c) else None)"
  using assms
  by (auto simp: new_request_def Let_def Header_Set_def ContentTypeJSON_def HeaderAPIKey_def
      HeaderAuthorization_def split: option.splits sum.splits if_splits)

lemma request_sent:
  "snd (request e c method path body useDataKey) =
     (case new_request e c method path body useDataKey of Inl err \<Rightarrow> [] | Inr req \<Rightarrow> [req])"
  by (simp add: request_def split: sum.splits)

text \<open>
  C6. Each request that \<open>request\<close> hands to the HTTP client goes to baseURL followed
  by the path and has the content type \<open>application/json\<close>; it has the header
  \<open>x-api-key\<close>, holding the API key, exactly when the key is not empty, and the header
  \<open>Authorization\<close>, holding \<open>Bearer\<close> and the token, exactly when the token is not
  empty.
\<close>

theorem request_signing:
  "\<forall>req\<in>set (snd (request e c method path body useDataKey)).
     req_url req = baseURL c @ path \<and>
     req_header req ''Content-Type'' = Some ''application/json'' \<and>
     (req_header req ''x-api-key'' \<noteq> None \<longleftrightarrow> apiKey c \<noteq> []) \<and>
     (apiKey c \<noteq> [] \<longrightarrow> req_header req ''x-api-key'' = Some (apiKey c)) \<and>
     (req_header req ''Authorization'' \<noteq> None \<longleftrightarrow> token c \<noteq> []) \<and>
     (token c \<noteq> [] \<longrightarrow> req_header req ''Authorization'' = Some (''Bearer '' @ token c))"
proof
  fix req
  assume "req \<in> set (snd (request e c method path body useDataKey))"
  then have "new_request e c method path body useDataKey = Inr req"
    by (simp add: request_sent split: sum.splits)
  from new_request_fields [OF this] show
    "req_url req = baseURL c @ path \<and>
     req_header req ''Content-Type'' = Some ''application/json'' \<and>
     (req_header req ''x-api-key'' \<noteq> None \<longleftrightarrow> apiKey c \<noteq> []) \<and>
     (apiKey c \<noteq> [] \<longrightarrow> req_header req ''x-api-key'' = Some (apiKey c)) \<and>
     (req_header req ''Authorization'' \<noteq> None \<longleftrightarrow> token c \<noteq> []) \<and>
     (token c \<noteq> [] \<longrightarrow> req_header req ''Authorization'' = Some (''Bearer '' @ token c))"
    by simp
qed

text \<open>
  C8. When the HTTP client answers with a status of 400 or more, \<open>request\<close> returns
  no response but an APIError holding the status, the method, the full URL and the body
  of the response, with the suggestion that getErrorSuggestion gives for the status and
  the method: a fixed text for 401, 403, 404 and 429, a text naming the method for
  405, and a default text otherwise. Below 400 it returns the response and no error.
\<close>

theorem request_status_handling:
  assumes "new_request e c method path body useDataKey = Inr req"
    and "Do e req = Inr resp"
  shows "(400 \<le> resp_StatusCode resp \<longrightarrow>
            fst (request e c method path body useDataKey) =
              Inl (APIErr \<lparr>StatusCode = resp_StatusCode resp, Method = method,
                           URL = baseURL c @ path, Body = resp_Body resp,
                           Suggestion = getErrorSuggestion (resp_StatusCode resp) method\<rparr>)) \<and>
         (resp_StatusCode resp < 400 \<longrightarrow>
            fst (request e c method path body useDataKey) = Inr resp) \<and>
         req_url req = baseURL c @ path \<and>
         getErrorSuggestion 401 method = ''Check if your API key is valid and properly set'' \<and>
         getErrorSuggestion 403 method =
           ''You don't have permission to perform this action. Verify your access rights'' \<and>
         getErrorSuggestion 404 method =
           ''The requested resource was not found. Verify the path and ID are correct'' \<and>
         getErrorSuggestion 405 method = ''The '' @ method @
           '' method is not allowed for this endpoint. Check the API documentation for supported methods'' \<and>
         getErrorSuggestion 429 method =
           ''You've exceeded the rate limit. Please wait before making more requests'' \<and>
         (resp_StatusCode resp \<notin> {401, 403, 404, 405, 429} \<longrightarrow>
            getErrorSuggestion (resp_StatusCode resp) method =
              ''Check the API documentation and verify your request format'')"
proof -
  have "req_url req = baseURL c @ path"
    using new_request_fields(1) [OF assms(1)] .
  moreover have "400 \<le> resp_StatusCode resp \<longrightarrow>
            fst (request e c method path body useDataKey) =
              Inl (APIErr \<lparr>StatusCode = resp_StatusCode resp, Method = method,
                           URL = baseURL c @ path, Body = resp_Body resp,
                           Suggestion = getErrorSuggestion (resp_StatusCode resp) method\<rparr>)"
    by (simp add: request_def assms)
  moreover have "resp_StatusCode resp < 400 \<longrightarrow>
            fst (request e c method path body useDataKey) = Inr resp"
    by (simp add: request_def assms)
  ultimately show ?thesis
    by (simp add: getErrorSuggestion_def)
qed

text \<open>
  C9. On a client that is not authenticated, GetCurrentUser and UpdateUser return no
  user and the error \<open>user is not authenticated\<close>, send no request, and return the
  client as it was.
\<close>

theorem unauthenticated_user_calls:
  assumes "\<not> IsAuthenticated c"
  shows "GetCurrentUser e c = (Inl (ErrorString ''user is not authenticated''), c, []) \<and>
         UpdateUser e' c data email password =
           (Inl (ErrorString ''user is not authenticated''), c, [])"
  using assms by (simp add: GetCurrentUser_def UpdateUser_def)

section \<open>Subscriptions\<close>

lemma run_Nil: "run [] w = w"
  by (simp add: run_def)

lemma run_Cons: "run (a # as) w = run as (step a w)"
  by (simp add: run_def)

lemma closed_Close: "closed (snd (Close c))"
  by (simp add: Close_def Conn_Close_def Let_def)

lemma closed_step: "closed (connection w) \<Longrightarrow> closed (connection (step a w))"
  by (cases a) (auto simp: read_turn_def closed_Close split: read_result.splits)

lemma closed_run: "closed (connection w) \<Longrightarrow> closed (connection (run as w))"
  by (induction as arbitrary: w) (simp_all add: run_Nil run_Cons closed_step)

lemma stopped_step: "\<not> running w \<Longrightarrow> \<not> running (step a w) \<and> callbacks (step a w) = callbacks w"
  by (cases a) simp_all

lemma stopped_run: "\<not> running w \<Longrightarrow> \<not> running (run as w) \<and> callbacks (run as w) = callbacks w"
proof (induction as arbitrary: w)
  case Nil
  then show ?case by (simp add: run_Nil)
next
  case (Cons a as)
  from stopped_step [OF Cons.prems, of a] Cons.IH [of "step a w"] show ?case
    by (simp add: run_Cons)
qed

lemma running_run:
  "running w \<Longrightarrow> running (run as w) \<longleftrightarrow> list_all is_frame (reads as)"
proof (induction as arbitrary: w)
  case Nil
  then show ?case by (simp add: run_Nil)
next
  case (Cons a as)
  show ?case
  proof (cases a)
    case (Read r)
    show ?thesis
    proof (cases r)
      case (ReadError err)
      have "\<not> running (step a w)"
        using Cons.prems by (simp add: Read ReadError read_turn_def)
      then have "\<not> running (run as (step a w))"
        using stopped_run by blast
      then show ?thesis by (simp add: run_Cons Read ReadError)
    next
      case (ReadFrame event)
      have "running (step a w)"
        using Cons.prems by (simp add: Read ReadFrame read_turn_def)
      from Cons.IH [OF this] show ?thesis
        by (simp add: run_Cons Read ReadFrame)
    qed
  next
    case CallClose
    have "running (step a w)" using Cons.prems by (simp add: CallClose)
    from Cons.IH [OF this] show ?thesis by (simp add: run_Cons CallClose)
  next
    case CallIsClosed
    have "running (step a w)" using Cons.prems by (simp add: CallIsClosed)
    from Cons.IH [OF this] show ?thesis by (simp add: run_Cons CallIsClosed)
  qed
qed

lemma callbacks_run:
  "running w \<Longrightarrow> callbacks (run as w) = callbacks w @ frames (takeWhile is_frame (reads as))"
proof (induction as arbitrary: w)
  case Nil
  then show ?case by (simp add: run_Nil)
next
  case (Cons a as)
  show ?case
  proof (cases a)
    case (Read r)
    show ?thesis
    proof (cases r)
      case (ReadError err)
      have "\<not> running (step a w)" "callbacks (step a w) = callbacks w"
        using Cons.prems by (simp_all add: Read ReadError read_turn_def)
      then have "callbacks (run as (step a w)) = callbacks w"
        using stopped_run by metis
      then show ?thesis by (simp add: run_Cons Read ReadError)
    next
      case (ReadFrame event)
      have "running (step a w)" "callbacks (step a w) = callbacks w @ [event]"
        using Cons.prems by (simp_all add: Read ReadFrame read_turn_def)
      with Cons.IH [of "step a w"] show ?thesis
        by (simp add: run_Cons Read ReadFrame)
    qed
  next
    case CallClose
    have "running (step a w)" "callbacks (step a w) = callbacks w"
      using Cons.prems by (simp_all add: CallClose)
    with Cons.IH [of "step a w"] show ?thesis by (simp add: run_Cons CallClose)
  next
    case CallIsClosed
    have "running (step a w)" "callbacks (step a w) = callbacks w"
      using Cons.prems by (simp_all add: CallIsClosed)
    with Cons.IH [of "step a w"] show ?thesis by (simp add: run_Cons CallIsClosed)
  qed
qed

lemma stopped_closed_step:
  "running w \<or> closed (connection w) \<Longrightarrow> running (step a w) \<or> closed (connection (step a w))"
  by (cases a) (auto simp: read_turn_def closed_Close split: read_result.splits)

lemma stopped_closed_run:
  "running w \<or> closed (connection w) \<Longrightarrow> running (run as w) \<or> closed (connection (run as w))"
proof (induction as arbitrary: w)
  case Nil
  then show ?case by (simp add: run_Nil)
next
  case (Cons a as)
  from Cons.IH [OF stopped_closed_step [OF Cons.prems, of a]] show ?case
    by (simp add: run_Cons)
qed

lemma WatchCollection_start:
  assumes "WatchCollection dial writeAuth c collection nm = Inr w"
  shows "running w" "callbacks w = []" "\<not> closed (connection w)"
  using assms
  by (auto simp: WatchCollection_def Let_def split: sum.splits option.splits)

lemma close_calls_step:
  "close_calls (conn (connection (step a w))) =
     close_calls (conn (connection w)) +
       (if a = CallClose \<and> \<not> closed (connection w) then 1 else 0)"
  by (cases a) (auto simp: read_turn_def Close_def Conn_Close_def Let_def split: read_result.splits)

lemma close_calls_run:
  "close_calls (conn (connection (run as w))) \<le>
     close_calls (conn (connection w)) + (if closed (connection w) then 0 else 1)"
proof (induction as arbitrary: w)
  case Nil
  show ?case by (simp add: run_Nil)
next
  case (Cons a as)
  show ?case
  proof (cases "a = CallClose \<and> \<not> closed (connection w)")
    case True
    then have "closed (connection (step a w))"
      by (simp add: closed_Close)
    with Cons.IH [of "step a w"] close_calls_step [of a w] True show ?thesis
      by (simp add: run_Cons)
  next
    case False
    have "closed (connection w) \<Longrightarrow> closed (connection (step a w))"
      by (rule closed_step)
    with Cons.IH [of "step a w"] close_calls_step [of a w] False show ?thesis
      by (auto simp: run_Cons split: if_splits)
  qed
qed

text \<open>
  C7. From the start of a subscription, after any history of reads and calls: the
  callback has received exactly the events read before the first failed read, in the
  order they were read; the loop still runs exactly when no read has failed; once it
  has ended the connection's flag is set; and a flag that is set stays set, so
  IsClosed keeps returning true.
\<close>

theorem read_loop_delivers_until_error:
  assumes "WatchCollection dial writeAuth c collection nm = Inr w"
  shows "callbacks (run as w) = frames (takeWhile is_frame (reads as)) \<and>
         (running (run as w) \<longleftrightarrow> list_all is_frame (reads as)) \<and>
         (\<not> running (run as w) \<longrightarrow> IsClosed (connection (run as w))) \<and>
         (IsClosed (connection (run as w)) \<longrightarrow> IsClosed (connection (run bs (run as w))))"
proof -
  note start = WatchCollection_start [OF assms]
  have "callbacks (run as w) = frames (takeWhile is_frame (reads as))"
    using callbacks_run [OF start(1), of as] start(2) by simp
  moreover have "running (run as w) \<longleftrightarrow> list_all is_frame (reads as)"
    using running_run [OF start(1)] .
  moreover have "running (run as w) \<or> closed (connection (run as w))"
    using stopped_closed_run [of w as] start(1) by simp
  moreover have "closed (connection (run as w)) \<longrightarrow> closed (connection (run bs (run as w)))"
    using closed_run by blast
  ultimately show ?thesis
    by (auto simp: IsClosed_def)
qed

theorem read_loop_delivers_until_error_witness:
  "callbacks (run [Read (ReadFrame (user_event ''create'' ''1'')), CallIsClosed,
                   Read (ReadFrame (user_event ''update'' ''1'')),
                   Read (ReadError (ErrorString ''websocket: close 1006'')), CallClose]
     \<lparr>connection = \<lparr>conn = \<lparr>close_calls = 0, close_result = None\<rparr>, name = ''users-watcher'',
                      closed = False\<rparr>,
      running = True, callbacks = []\<rparr>)
   = [user_event ''create'' ''1'', user_event ''update'' ''1''] \<and>
   \<not> running (run [Read (ReadFrame (user_event ''create'' ''1'')), CallIsClosed,
                   Read (ReadFrame (user_event ''update'' ''1'')),
                   Read (ReadError (ErrorString ''websocket: close 1006'')), CallClose]
     \<lparr>connection = \<lparr>conn = \<lparr>close_calls = 0, close_result = None\<rparr>, name = ''users-watcher'',
                      closed = False\<rparr>,
      running = True, callbacks = []\<rparr>) \<and>
   IsClosed (connection (run [Read (ReadFrame (user_event ''create'' ''1'')), CallIsClosed,
                   Read (ReadFrame (user_event ''update'' ''1'')),
                   Read (ReadError (ErrorString ''websocket: close 1006'')), CallClose]
     \<lparr>connection = \<lparr>conn = \<lparr>close_calls = 0, close_result = None\<rparr>, name = ''users-watcher'',
                      closed = False\<rparr>,
      running = True, callbacks = []\<rparr>))"
proof -
  let ?w = "\<lparr>connection = \<lparr>conn = \<lparr>close_calls = 0, close_result = None\<rparr>,
                name = ''users-watcher'', closed = False\<rparr>,
              running = True, callbacks = []\<rparr> :: unit watch"
  have w: "WatchCollection (\<lambda>url. Inr \<lparr>close_calls = 0, close_result = None\<rparr>) (\<lambda>k key. None)
             example_client ''users'' ''users-watcher'' = Inr ?w"
    by (simp add: WatchCollection_def Let_def)
  show ?thesis
    using read_loop_delivers_until_error [OF w,
        of "[Read (ReadFrame (user_event ''create'' ''1'')), CallIsClosed,
             Read (ReadFrame (user_event ''update'' ''1'')),
             Read (ReadError (ErrorString ''websocket: close 1006'')), CallClose]" "[]"]
    by simp
qed

text \<open>
  C10. On a connection whose flag is set, Close returns no error and leaves the
  connection as it is; a second Close therefore changes nothing and calls the
  WebSocket's Close no further time; and over any history of a subscription the
  WebSocket's Close is called at most once, and not at all when the flag was set
  from the start.
\<close>

theorem Close_is_idempotent:
  "(closed c \<longrightarrow> Close c = (None, c)) \<and>
   Close (snd (Close c)) = (None, snd (Close c)) \<and>
   close_calls (conn (snd (Close (snd (Close c))))) = close_calls (conn (snd (Close c))) \<and>
   close_calls (conn (connection (run as w))) \<le>
     close_calls (conn (connection w)) + (if closed (connection w) then 0 else 1)"
proof -
  have a: "closed k \<longrightarrow> Close k = (None, k)" for k
    by (simp add: Close_def)
  have "Close (snd (Close c)) = (None, snd (Close c))"
    using a [of "snd (Close c)"] closed_Close [of c] by simp
  then show ?thesis
    using a [of c] close_calls_run [of as w] by simp
qed

theorem Close_is_idempotent_witness:
  "closed \<lparr>conn = \<lparr>close_calls = 1, close_result = None\<rparr>, name = ''users-watcher'',
            closed = True\<rparr> \<and>
   Close \<lparr>conn = \<lparr>close_calls = 1, close_result = None\<rparr>, name = ''users-watcher'',
            closed = True\<rparr> =
     (None, \<lparr>conn = \<lparr>close_calls = 1, close_result = None\<rparr>, name = ''users-watcher'',
            closed = True\<rparr>) \<and>
   snd (Close \<lparr>conn = \<lparr>close_calls = 0, close_result = None\<rparr>, name = ''users-watcher'',
            closed = False\<rparr>) =
     \<lparr>conn = \<lparr>close_calls = 1, close_result = None\<rparr>, name = ''users-watcher'',
            closed = True\<rparr>"
proof -
  let ?c = "\<lparr>conn = \<lparr>close_calls = 1, close_result = None\<rparr>, name = ''users-watcher'',
            closed = True\<rparr>"
  have one: "snd (Close \<lparr>conn = \<lparr>close_calls = 0, close_result = None\<rparr>,
            name = ''users-watcher'', closed = False\<rparr>) = ?c"
    by (simp add: Close_def Conn_Close_def Let_def)
  have "closed ?c \<longrightarrow> Close ?c = (None, ?c)"
    using Close_is_idempotent [of ?c "[]"
      "\<lparr>connection = ?c, running = False, callbacks = []\<rparr>"]
    by blast
  moreover have "closed ?c" by simp
  ultimately have "Close ?c = (None, ?c)" by blast
  with one show ?thesis by simp
qed

lemma example_client_fields:
  "baseURL example_client = ''https://api.cocobase.com''"
  "apiKey example_client = ''your-api-key''"
  "token example_client = []"
  "user example_client = None"
  "storage example_client = None"
  by (simp_all add: example_client_def NewClient_def DefaultBaseURL_def TrimSuffix_def Let_def)

theorem token_is_authentication_state_witness:
  "\<not> IsAuthenticated example_client \<and>
   GetToken (snd (SetToken ''eyJhbGciOi'' example_client)) = ''eyJhbGciOi'' \<and>
   IsAuthenticated (snd (SetToken ''eyJhbGciOi'' example_client)) \<and>
   GetToken (snd (Logout (snd (SetToken ''eyJhbGciOi'' example_client)))) = [] \<and>
   \<not> IsAuthenticated (snd (Logout (snd (SetToken ''eyJhbGciOi'' example_client))))"
  using token_is_authentication_state [of example_client "''eyJhbGciOi''"]
    token_is_authentication_state [of "snd (SetToken ''eyJhbGciOi'' example_client)" "[]"]
  by (simp add: GetToken_def example_client_fields)

theorem request_signing_witness:
  "snd (request (answering \<lparr>resp_StatusCode = 200, resp_Body = ''[]''\<rparr>) example_client
         ''GET'' ''/collections/users/documents'' (None :: string option) True) \<noteq> [] \<and>
   list_all (\<lambda>req. req_url req = ''https://api.cocobase.com/collections/users/documents'' \<and>
                   req_header req ''Content-Type'' = Some ''application/json'' \<and>
                   req_header req ''x-api-key'' = Some ''your-api-key'' \<and>
                   req_header req ''Authorization'' = None)
     (snd (request (answering \<lparr>resp_StatusCode = 200, resp_Body = ''[]''\<rparr>) example_client
         ''GET'' ''/collections/users/documents'' (None :: string option) True))"
proof -
  let ?sent = "snd (request (answering \<lparr>resp_StatusCode = 200, resp_Body = ''[]''\<rparr>)
     example_client ''GET'' ''/collections/users/documents'' (None :: string option) True)"
  have "?sent \<noteq> []"
    by (simp add: request_sent new_request_def answering_def Let_def)
  then show ?thesis
    using request_signing [of "answering \<lparr>resp_StatusCode = 200, resp_Body = ''[]''\<rparr>"
        example_client "''GET''" "''/collections/users/documents''" "None :: string option" True]
    by (simp add: list_all_iff example_client_fields)
qed

theorem request_status_handling_witness:
  "fst (request (answering \<lparr>resp_StatusCode = 404, resp_Body = ''Not Found''\<rparr>) example_client
         ''DELETE'' ''/collections/users/documents/7'' (None :: string option) True) =
     Inl (APIErr \<lparr>StatusCode = 404, Method = ''DELETE'',
                  URL = ''https://api.cocobase.com/collections/users/documents/7'',
                  Body = ''Not Found'',
                  Suggestion =
                    ''The requested resource was not found. Verify the path and ID are correct''\<rparr>) \<and>
   fst (request (answering \<lparr>resp_StatusCode = 204, resp_Body = []\<rparr>) example_client
         ''DELETE'' ''/collections/users/documents/7'' (None :: string option) True) =
     Inr \<lparr>resp_StatusCode = 204, resp_Body = []\<rparr>"
proof -
  let ?req = "\<lparr>req_method = ''DELETE'',
      req_url = ''https://api.cocobase.com/collections/users/documents/7'',
      req_header = [''Content-Type'' \<mapsto> ''application/json'', ''x-api-key'' \<mapsto> ''your-api-key''],
      req_body = None\<rparr>"
  have n: "new_request (answering r) example_client ''DELETE''
             ''/collections/users/documents/7'' (None :: string option) True = Inr ?req" for r
    by (simp add: new_request_def answering_def Let_def Header_Set_def ContentTypeJSON_def
        HeaderAPIKey_def example_client_fields)
  have d: "Do (answering r :: (string, unit) env) ?req = Inr r" for r
    by (simp add: answering_def)
  show ?thesis
    using request_status_handling [OF n d, of "\<lparr>resp_StatusCode = 404, resp_Body = ''Not Found''\<rparr>"]
      request_status_handling [OF n d, of "\<lparr>resp_StatusCode = 204, resp_Body = []\<rparr>"]
    by (simp add: example_client_fields)
qed

theorem unauthenticated_user_calls_witness:
  "\<not> IsAuthenticated example_client \<and>
   GetCurrentUser (answering \<lparr>resp_StatusCode = 200, resp_Body = ''{}''\<rparr> :: (string, unit) env)
     example_client = (Inl (ErrorString ''user is not authenticated''), example_client, []) \<and>
   UpdateUser (answering \<lparr>resp_StatusCode = 200, resp_Body = ''{}''\<rparr>) example_client
     None (Some ''john@example.com'') None =
     (Inl (ErrorString ''user is not authenticated''), example_client, [])"
proof -
  have a: "\<not> IsAuthenticated example_client"
    by (simp add: IsAuthenticated_def example_client_fields)
  show ?thesis
    using unauthenticated_user_calls [OF a] a by simp
qed

end
